theory Spec2Isabelle
  imports Complex_Main "HOL-Library.Sublist"
begin

section \<open>Python values, exceptions and byte arrays\<close>

text \<open>
  The driver is MicroPython code. Its integers are unbounded and are modelled by \<open>int\<close>;
  the bit operators \<open>&\<close>, \<open>|\<close>, \<open><<\<close> and \<open>>>\<close> are \<open>and\<close>, \<open>or\<close>, \<open>push_bit\<close> and
  \<open>drop_bit\<close> on \<open>int\<close>. Every exception the modelled code can raise is a constructor of
  \<open>error\<close>; an \<open>assert\<close> is taken to be enabled and raises AssertionError when its
  condition fails. A method mutates its object in place, so a raise leaves behind whatever was
  written before it: a result is either \<open>Inl (e, s)\<close>, the exception together with the state
  at the moment of the raise, or \<open>Inr s\<close>, the state at the return.
\<close>

datatype error = AssertionError | IndexError | ValueError | TypeError

type_synonym 'a result = "(error \<times> 'a) + 'a"

definition bind :: "'a result \<Rightarrow> ('a \<Rightarrow> 'a result) \<Rightarrow> 'a result" where
  "bind r f = (case r of Inl x \<Rightarrow> Inl x | Inr s \<Rightarrow> f s)"

text \<open>
  A number handed to \<open>set_blink_rate\<close> is an \<open>int\<close> or a \<open>float\<close>. A finite float is
  a rational number, and the only operations applied to it are comparisons with literals
  and integer-only operators, so \<open>PyFloat q\<close> stands for the float of value \<open>q\<close>.
\<close>

datatype pynum = PyInt int | PyFloat rat

fun num_val :: "pynum \<Rightarrow> rat" where
  "num_val (PyInt n) = of_int n"
| "num_val (PyFloat q) = q"

definition py_eq :: "pynum \<Rightarrow> pynum \<Rightarrow> bool" where
  "py_eq x y = (num_val x = num_val y)"

definition py_in_tuple :: "pynum \<Rightarrow> pynum list \<Rightarrow> bool" where
  "py_in_tuple x xs = list_ex (py_eq x) xs"

text \<open>\<open>x & n\<close> and \<open>x << n\<close> for an \<open>int\<close> literal \<open>n\<close>: a float operand raises TypeError.\<close>

fun num_and :: "pynum \<Rightarrow> int \<Rightarrow> error + int" where
  "num_and (PyInt x) n = Inr (and x n)"
| "num_and (PyFloat q) n = Inl TypeError"

fun num_lshift :: "pynum \<Rightarrow> nat \<Rightarrow> error + int" where
  "num_lshift (PyInt x) n = Inr (push_bit n x)"
| "num_lshift (PyFloat q) n = Inl TypeError"

text \<open>\<open>x << n\<close> on ints: a negative shift count raises ValueError.\<close>

definition lshift :: "int \<Rightarrow> int \<Rightarrow> error + int" where
  "lshift x n = (if n < 0 then Inl ValueError else Inr (push_bit (nat n) x))"

text \<open>
  Subscripts of \<open>bytearray\<close>, \<open>bytes\<close> and tuples: a negative index counts from the end,
  an index outside the sequence raises IndexError, and a \<open>bytearray\<close> stores only values in
  \<open>range(256)\<close> (ValueError otherwise).
\<close>

definition index_of :: "'a list \<Rightarrow> int \<Rightarrow> nat option" where
  "index_of xs i =
     (let n = int (length xs); j = (if i < 0 then i + n else i)
      in if 0 \<le> j \<and> j < n then Some (nat j) else None)"

definition getitem :: "'a list \<Rightarrow> int \<Rightarrow> error + 'a" where
  "getitem xs i = (case index_of xs i of None \<Rightarrow> Inl IndexError | Some j \<Rightarrow> Inr (xs ! j))"

definition setitem :: "int list \<Rightarrow> int \<Rightarrow> int \<Rightarrow> int list result" where
  "setitem buf i v =
     (case index_of buf i of
        None \<Rightarrow> Inl (IndexError, buf)
      | Some j \<Rightarrow> if 0 \<le> v \<and> v < 256 then Inr (buf[j := v]) else Inl (ValueError, buf))"

text \<open>\<open>buf[i] |= m\<close> and \<open>buf[i] &= m\<close>: read the item, combine, store.\<close>

definition ior_item :: "int list \<Rightarrow> int \<Rightarrow> int \<Rightarrow> int list result" where
  "ior_item buf i m =
     (case getitem buf i of Inl e \<Rightarrow> Inl (e, buf) | Inr x \<Rightarrow> setitem buf i (or x m))"

definition iand_item :: "int list \<Rightarrow> int \<Rightarrow> int \<Rightarrow> int list result" where
  "iand_item buf i m =
     (case getitem buf i of Inl e \<Rightarrow> Inl (e, buf) | Inr x \<Rightarrow> setitem buf i (and x m))"

text \<open>The state of a \<open>bytearray(16)\<close>: sixteen bytes.\<close>

definition bytearray16 :: "int list \<Rightarrow> bool" where
  "bytearray16 buf = (length buf = 16 \<and> list_all (\<lambda>x. 0 \<le> x \<and> x < 256) buf)"

text \<open>
  Strings: \<open>ord\<close> accepts only a string of length one; \<open>s in t\<close> on two strings is the
  substring test; \<open>lower\<close> maps the ASCII capitals to their small letters.
\<close>

definition ord :: "string \<Rightarrow> error + int" where
  "ord s = (case s of [c] \<Rightarrow> Inr (of_char c) | _ \<Rightarrow> Inl TypeError)"

definition str_in :: "string \<Rightarrow> string \<Rightarrow> bool" where
  "str_in s t = sublist s t"

definition lower_char :: "char \<Rightarrow> char" where
  "lower_char c =
     (let n = (of_char c :: nat) in if 65 \<le> n \<and> n \<le> 90 then char_of (n + 32) else c)"

definition lower :: "string \<Rightarrow> string" where
  "lower s = map lower_char s"

text \<open>\<open>str(number)\<close> for a number already checked to lie in \<open>range(10)\<close>.\<close>

definition str_digit :: "int \<Rightarrow> string" where
  "str_digit n = [char_of (48 + n)]"

section \<open>The generic controller: class HT16K33\<close>

text \<open>
  The I2C bus is an external collaborator. It is modelled by the log of the writes made to
  it, each an address and a payload; a write is taken to succeed. The display buffer is
  created by the subclasses and used by the base class, so it sits in a record that both
  subclasses extend.
\<close>

record ht16k33 =
  i2c :: "(int \<times> int list) list"
  address :: int
  brightness :: int
  flash_rate :: int
  blink_rate :: "int option"

record display = ht16k33 +
  buffer :: "int list"

definition HT16K33_GENERIC_DISPLAY_ON :: int where "HT16K33_GENERIC_DISPLAY_ON = 0x81"
definition HT16K33_GENERIC_DISPLAY_OFF :: int where "HT16K33_GENERIC_DISPLAY_OFF = 0x80"
definition HT16K33_GENERIC_SYSTEM_ON :: int where "HT16K33_GENERIC_SYSTEM_ON = 0x21"
definition HT16K33_GENERIC_SYSTEM_OFF :: int where "HT16K33_GENERIC_SYSTEM_OFF = 0x20"
definition HT16K33_GENERIC_CMD_BRIGHTNESS :: int where "HT16K33_GENERIC_CMD_BRIGHTNESS = 0xE0"
definition HT16K33_GENERIC_CMD_BLINK :: int where "HT16K33_GENERIC_CMD_BLINK = 0x81"

text \<open>\<open>_write_cmd\<close>: \<open>bytes([byte])\<close> raises ValueError outside \<open>range(256)\<close>.\<close>

definition write_cmd :: "'a ht16k33_scheme \<Rightarrow> int \<Rightarrow> 'a ht16k33_scheme result" where
  "write_cmd self byte =
     (if 0 \<le> byte \<and> byte < 256
      then Inr (self\<lparr>i2c := i2c self @ [(address self, [byte])]\<rparr>)
      else Inl (ValueError, self))"

text \<open>\<open>_render\<close>: the buffer behind one leading zero byte, in one write.\<close>

definition render :: "'a display_scheme \<Rightarrow> 'a display_scheme" where
  "render self = self\<lparr>i2c := i2c self @ [(address self, 0 # buffer self)]\<rparr>"

definition power_on :: "'a ht16k33_scheme \<Rightarrow> 'a ht16k33_scheme result" where
  "power_on self =
     bind (write_cmd self HT16K33_GENERIC_SYSTEM_ON)
       (\<lambda>self. write_cmd self HT16K33_GENERIC_DISPLAY_ON)"

definition power_off :: "'a ht16k33_scheme \<Rightarrow> 'a ht16k33_scheme result" where
  "power_off self =
     bind (write_cmd self HT16K33_GENERIC_DISPLAY_OFF)
       (\<lambda>self. write_cmd self HT16K33_GENERIC_SYSTEM_OFF)"

text \<open>
  \<open>HT16K33.__init__\<close>, run on the object the subclass constructor has begun; the second
  argument is the bus handle, that is, the log of the bus so far.
\<close>

definition HT16K33_init ::
  "'a ht16k33_scheme \<Rightarrow> (int \<times> int list) list \<Rightarrow> int \<Rightarrow> 'a ht16k33_scheme result" where
  "HT16K33_init self bus i2c_address =
     (if \<not> (0x00 \<le> i2c_address \<and> i2c_address < 0x80) then Inl (AssertionError, self)
      else power_on (self\<lparr>i2c := bus, address := i2c_address\<rparr>))"

definition set_blink_rate :: "'a ht16k33_scheme \<Rightarrow> pynum \<Rightarrow> 'a ht16k33_scheme result" where
  "set_blink_rate self rate =
     (if \<not> py_in_tuple rate [PyInt 0, PyFloat (1 / 2), PyInt 1, PyInt 2]
      then Inl (AssertionError, self)
      else case num_and rate 0x03 of
        Inl e \<Rightarrow> Inl (e, self)
      | Inr r \<Rightarrow>
          (let self = self\<lparr>blink_rate := Some r\<rparr> in
           case num_lshift rate 1 of
             Inl e \<Rightarrow> Inl (e, self)
           | Inr s \<Rightarrow> write_cmd self (or HT16K33_GENERIC_CMD_BLINK s)))"

definition set_brightness :: "'a ht16k33_scheme \<Rightarrow> int \<Rightarrow> 'a ht16k33_scheme result" where
  "set_brightness self b =
     (let b = (if b < 0 \<or> b > 15 then 15 else b);
          self = self\<lparr>brightness := b\<rparr>
      in write_cmd self (or HT16K33_GENERIC_CMD_BRIGHTNESS b))"

definition clear :: "'a display_scheme \<Rightarrow> 'a display_scheme" where
  "clear self = self\<lparr>buffer := map (\<lambda>_. 0) (buffer self)\<rparr>"

section \<open>The 7-segment display: class HT16K33Segment\<close>

record seg7 = display +
  is_rotated :: bool

definition HT16K33_SEGMENT_COLON_ROW :: int where "HT16K33_SEGMENT_COLON_ROW = 0x04"
definition HT16K33_SEGMENT_MINUS_CHAR :: int where "HT16K33_SEGMENT_MINUS_CHAR = 0x10"
definition HT16K33_SEGMENT_DEGREE_CHAR :: int where "HT16K33_SEGMENT_DEGREE_CHAR = 0x11"
definition HT16K33_SEGMENT_SPACE_CHAR :: int where "HT16K33_SEGMENT_SPACE_CHAR = 0x12"

definition POS :: "int list" where
  "POS = [0, 2, 6, 8]"

definition CHARSET :: "int list" where
  "CHARSET = [0x3F, 0x06, 0x5B, 0x4F, 0x66, 0x6D, 0x7D, 0x07, 0x7F, 0x6F,
              0x5F, 0x7C, 0x58, 0x5E, 0x7B, 0x71, 0x40, 0x63, 0x00]"

definition HT16K33Segment_init :: "(int \<times> int list) list \<Rightarrow> int \<Rightarrow> seg7 result" where
  "HT16K33Segment_init bus i2c_address =
     HT16K33_init
       \<lparr>i2c = [], address = 0, brightness = 15, flash_rate = 0, blink_rate = None,
        buffer = replicate 16 0, is_rotated = False\<rparr> bus i2c_address"

definition rotate :: "seg7 \<Rightarrow> seg7" where
  "rotate self = self\<lparr>is_rotated := \<not> is_rotated self\<rparr>"

text \<open>Lifting a computation on the buffer to the object that owns it.\<close>

definition on_buffer ::
  "'a display_scheme \<Rightarrow> (int list \<Rightarrow> int list result) \<Rightarrow> 'a display_scheme result" where
  "on_buffer self f =
     (case f (buffer self) of
        Inl (e, buf) \<Rightarrow> Inl (e, self\<lparr>buffer := buf\<rparr>)
      | Inr buf \<Rightarrow> Inr (self\<lparr>buffer := buf\<rparr>))"

definition HT16K33Segment_set_colon :: "seg7 \<Rightarrow> bool \<Rightarrow> seg7 result" where
  "HT16K33Segment_set_colon self is_set =
     on_buffer self (\<lambda>buf. setitem buf HT16K33_SEGMENT_COLON_ROW (if is_set then 0x02 else 0x00))"

text \<open>
  The two lines that end \<open>set_glyph\<close> and \<open>set_character\<close>:
  \<open>self.buffer[self.POS[digit]] = v\<close> and, with a dot, \<open>self.buffer[self.POS[digit]] |= 0x80\<close>.
\<close>

definition put_digit :: "int list \<Rightarrow> int \<Rightarrow> int \<Rightarrow> bool \<Rightarrow> int list result" where
  "put_digit buf digit v has_dot =
     (case getitem POS digit of
        Inl e \<Rightarrow> Inl (e, buf)
      | Inr p \<Rightarrow>
          bind (setitem buf p v)
            (\<lambda>buf. if has_dot then ior_item buf p 0x80 else Inr buf))"

definition HT16K33Segment_set_glyph :: "seg7 \<Rightarrow> int \<Rightarrow> int \<Rightarrow> bool \<Rightarrow> seg7 result" where
  "HT16K33Segment_set_glyph self glyph digit has_dot =
     (if \<not> (0 \<le> digit \<and> digit < 4) then Inl (AssertionError, self)
      else if \<not> (0 \<le> glyph \<and> glyph < 0x80) then Inl (AssertionError, self)
      else on_buffer self (\<lambda>buf. put_digit buf digit glyph has_dot))"

text \<open>The \<open>if\<close>/\<open>elif\<close> chain of \<open>set_character\<close>, from the initial \<open>char_val = 0xFF\<close>.\<close>

definition seg7_char_val :: "string \<Rightarrow> error + int" where
  "seg7_char_val char =
     (if char = ''deg'' then Inr HT16K33_SEGMENT_DEGREE_CHAR
      else if char = ''-'' then Inr HT16K33_SEGMENT_MINUS_CHAR
      else if char = '' '' then Inr HT16K33_SEGMENT_SPACE_CHAR
      else if str_in char ''abcdef'' then map_sum id (\<lambda>n. n - 87) (ord char)
      else if str_in char ''0123456789'' then map_sum id (\<lambda>n. n - 48) (ord char)
      else Inr 0xFF)"

definition HT16K33Segment_set_character :: "seg7 \<Rightarrow> string \<Rightarrow> int \<Rightarrow> bool \<Rightarrow> seg7 result" where
  "HT16K33Segment_set_character self char digit has_dot =
     (if \<not> (0 \<le> digit \<and> digit < 4) then Inl (AssertionError, self)
      else case seg7_char_val (lower char) of
        Inl e \<Rightarrow> Inl (e, self)
      | Inr char_val \<Rightarrow>
          if \<not> (char_val \<noteq> 0xFF) then Inl (AssertionError, self)
          else (case getitem CHARSET char_val of
                  Inl e \<Rightarrow> Inl (e, self)
                | Inr v \<Rightarrow> on_buffer self (\<lambda>buf. put_digit buf digit v has_dot)))"

definition HT16K33Segment_set_number :: "seg7 \<Rightarrow> int \<Rightarrow> int \<Rightarrow> bool \<Rightarrow> seg7 result" where
  "HT16K33Segment_set_number self number digit has_dot =
     (if \<not> (0 \<le> digit \<and> digit < 4) then Inl (AssertionError, self)
      else if \<not> (0 \<le> number \<and> number < 10) then Inl (AssertionError, self)
      else HT16K33Segment_set_character self (str_digit number) digit has_dot)"

text \<open>\<open>draw\<close>: the three-line exchange of two digits, then the loop that turns each digit.\<close>

definition swap_digits :: "int list \<Rightarrow> int \<Rightarrow> int \<Rightarrow> int list result" where
  "swap_digits buf p q =
     (case getitem buf p of
        Inl e \<Rightarrow> Inl (e, buf)
      | Inr a \<Rightarrow>
          (case getitem buf q of
             Inl e \<Rightarrow> Inl (e, buf)
           | Inr x \<Rightarrow> bind (setitem buf p x) (\<lambda>buf. setitem buf q a)))"

definition rotate_digit :: "int list \<Rightarrow> nat \<Rightarrow> int list result" where
  "rotate_digit buf i =
     (case getitem buf (POS ! i) of
        Inl e \<Rightarrow> Inl (e, buf)
      | Inr a \<Rightarrow>
          (let b = push_bit 3 (and a 0x07);
               c = drop_bit 3 (and a 0x38);
               a = and a 0xC0
           in setitem buf (POS ! i) (or (or a b) c)))"

fun rotate_loop :: "nat list \<Rightarrow> int list \<Rightarrow> int list result" where
  "rotate_loop [] buf = Inr buf"
| "rotate_loop (i # is) buf = bind (rotate_digit buf i) (rotate_loop is)"

definition HT16K33Segment_draw :: "seg7 \<Rightarrow> seg7 result" where
  "HT16K33Segment_draw self =
     (if is_rotated self
      then bind
        (on_buffer self (\<lambda>buf.
           bind (swap_digits buf (POS ! 0) (POS ! 3)) (\<lambda>buf.
           bind (swap_digits buf (POS ! 1) (POS ! 2)) (\<lambda>buf.
           rotate_loop [0..<4] buf))))
        (\<lambda>self. Inr (render self))
      else Inr (render self))"

section \<open>The 14-segment display: class HT16K33Segment14\<close>

record seg14 = display +
  is_ht16k33 :: bool

definition HT16K33_SEG14_DP_VALUE :: int where "HT16K33_SEG14_DP_VALUE = 0x4000"
definition HT16K33_SEG14_BLANK_CHAR :: int where "HT16K33_SEG14_BLANK_CHAR = 62"
definition HT16K33_SEG14_DQUOTE_CHAR :: int where "HT16K33_SEG14_DQUOTE_CHAR = 64"
definition HT16K33_SEG14_DOLLAR_CHAR :: int where "HT16K33_SEG14_DOLLAR_CHAR = 66"
definition HT16K33_SEG14_STAR_CHAR :: int where "HT16K33_SEG14_STAR_CHAR = 72"
definition HT16K33_SEG14_PLUS_CHAR :: int where "HT16K33_SEG14_PLUS_CHAR = 73"
definition HT16K33_SEG14_MINUS_CHAR :: int where "HT16K33_SEG14_MINUS_CHAR = 74"
definition HT16K33_SEG14_DIVSN_CHAR :: int where "HT16K33_SEG14_DIVSN_CHAR = 75"
definition HT16K33_SEG14_CHAR_COUNT :: int where "HT16K33_SEG14_CHAR_COUNT = 76"
definition VK16K33_SEG14_COLON_BYTE :: int where "VK16K33_SEG14_COLON_BYTE = 1"
definition VK16K33_SEG14_DECIMAL_BYTE :: int where "VK16K33_SEG14_DECIMAL_BYTE = 3"

definition CHARSET14 :: "int list" where
  "CHARSET14 =
    [0x24, 0x3F, 0x00, 0x06, 0x00, 0xDB, 0x00, 0x8F, 0x00, 0xE6, 0x00, 0xED, 0x00, 0xFD,
     0x00, 0x07, 0x00, 0xFF, 0x00, 0xEF, 0x00, 0xF7, 0x12, 0x8F, 0x00, 0x39, 0x12, 0x0F,
     0x00, 0x79, 0x00, 0x71, 0x00, 0xBD, 0x00, 0xF6, 0x12, 0x09, 0x00, 0x1E, 0x0C, 0x70,
     0x00, 0x38, 0x05, 0x36, 0x09, 0x36, 0x00, 0x3F, 0x00, 0xF3, 0x08, 0x3F, 0x08, 0xF3,
     0x00, 0xED, 0x12, 0x01, 0x00, 0x3E, 0x24, 0x30, 0x28, 0x36, 0x2D, 0x00, 0x15, 0x00,
     0x24, 0x09, 0x10, 0x58, 0x08, 0x78, 0x00, 0xD8, 0x20, 0x8E, 0x20, 0x58, 0x24, 0x80,
     0x04, 0x8E, 0x10, 0x70, 0x10, 0x00, 0x08, 0x06, 0x1E, 0x00, 0x20, 0x30, 0x10, 0xD4,
     0x10, 0x50, 0x00, 0xDC, 0x01, 0x70, 0x04, 0x86, 0x00, 0x50, 0x08, 0x88, 0x00, 0x78,
     0x00, 0x1C, 0x08, 0x04, 0x28, 0x14, 0x2D, 0x00, 0x25, 0x00, 0x20, 0x48, 0x00, 0x00,
     0x00, 0x06, 0x02, 0x20, 0x10, 0x83, 0x12, 0xED, 0x24, 0x24, 0x00, 0xE3, 0x04, 0x00,
     0x09, 0x00, 0x20, 0x00, 0x3F, 0xC0, 0x12, 0xC0, 0x00, 0xC0, 0x24, 0x00]"

definition HT16K33Segment14_init ::
  "(int \<times> int list) list \<Rightarrow> int \<Rightarrow> bool \<Rightarrow> seg14 result" where
  "HT16K33Segment14_init bus i2c_address is_ht =
     HT16K33_init
       \<lparr>i2c = [], address = 0, brightness = 15, flash_rate = 0, blink_rate = None,
        buffer = replicate 16 0, is_ht16k33 = is_ht\<rparr> bus i2c_address"

text \<open>
  \<open>_set_digit\<close>, the branch for the HT16K33: the high byte with bits 3 and 5 exchanged is
  stored first, at \<open>(digit << 1) + 1\<close>, then the low byte at \<open>digit << 1\<close>.
\<close>

definition ht_digit :: "int list \<Rightarrow> int \<Rightarrow> int \<Rightarrow> bool \<Rightarrow> int list result" where
  "ht_digit buf val digit has_dot =
     (let val = (if has_dot then or val HT16K33_SEG14_DP_VALUE else val);
          msb = and (drop_bit 8 val) 0xFF;
          b11 = and msb 0x08;
          b13 = and msb 0x20;
          msb = and msb 0xD7;
          msb = or msb (push_bit 2 b11);
          msb = or msb (drop_bit 2 b13)
      in case lshift digit 1 of
           Inl e \<Rightarrow> Inl (e, buf)
         | Inr p \<Rightarrow> bind (setitem buf (p + 1) msb) (\<lambda>buf. setitem buf p (and val 0xFF)))"

text \<open>
  \<open>_set_digit\<close>, the branch for the VK16K33: one step of the loop over \<open>range(0, 16)\<close>
  with the running index \<open>a\<close> and the multiplier \<open>d\<close>, and the loop itself. In
  \<open>self.buffer[a] |= (d << digit)\<close> the item is read before the shift is evaluated.
\<close>

definition vk_write :: "int list \<Rightarrow> int \<Rightarrow> int \<Rightarrow> int \<Rightarrow> int list result" where
  "vk_write buf a d digit =
     (case getitem buf a of
        Inl e \<Rightarrow> Inl (e, buf)
      | Inr x \<Rightarrow>
          (case lshift d digit of
             Inl e \<Rightarrow> Inl (e, buf)
           | Inr m \<Rightarrow> setitem buf a (or x m)))"

fun vk_loop ::
  "int \<Rightarrow> int \<Rightarrow> nat list \<Rightarrow> int \<times> int \<times> int list \<Rightarrow> (error \<times> int list) + (int \<times> int \<times> int list)"
  where
  "vk_loop val digit [] s = Inr s"
| "vk_loop val digit (i # is) (a, d, buf) =
     (case (if and val (push_bit i 1) \<noteq> 0 then vk_write buf a d digit else Inr buf) of
        Inl x \<Rightarrow> Inl x
      | Inr buf \<Rightarrow>
          (let a = a + 2 in
           if i = 6 then vk_loop val digit is (0, 16, buf)
           else vk_loop val digit is (a, d, buf)))"

definition vk_digit :: "int list \<Rightarrow> int \<Rightarrow> int \<Rightarrow> int list result" where
  "vk_digit buf val digit =
     (case vk_loop val digit [0..<16] (0, 1, buf) of
        Inl x \<Rightarrow> Inl x
      | Inr (a, d, buf) \<Rightarrow> Inr buf)"

definition set_digit :: "seg14 \<Rightarrow> int \<Rightarrow> int \<Rightarrow> bool \<Rightarrow> seg14 result" where
  "set_digit self val digit has_dot =
     (if is_ht16k33 self then on_buffer self (\<lambda>buf. ht_digit buf val digit has_dot)
      else on_buffer self (\<lambda>buf. vk_digit buf val digit))"

definition HT16K33Segment14_set_glyph :: "seg14 \<Rightarrow> int \<Rightarrow> int \<Rightarrow> bool \<Rightarrow> seg14 result" where
  "HT16K33Segment14_set_glyph self glyph digit has_dot =
     (if \<not> (0 \<le> digit \<and> digit < 4) then Inl (AssertionError, self)
      else if \<not> (0 \<le> glyph \<and> glyph < 0xFFFF) then Inl (AssertionError, self)
      else set_digit self glyph digit has_dot)"

text \<open>
  The \<open>if\<close>/\<open>elif\<close> chain of \<open>set_character\<close>, from the initial \<open>char_val = 0xFFFF\<close>.
  This class does not lowercase its input.
\<close>

definition seg14_char_val :: "string \<Rightarrow> error + int" where
  "seg14_char_val char =
     (if char = ''-'' then Inr HT16K33_SEG14_MINUS_CHAR
      else if char = ''*'' then Inr HT16K33_SEG14_STAR_CHAR
      else if char = ''+'' then Inr HT16K33_SEG14_PLUS_CHAR
      else if char = '' '' then Inr HT16K33_SEG14_BLANK_CHAR
      else if char = ''/'' then Inr HT16K33_SEG14_DIVSN_CHAR
      else if char = ''$'' then Inr HT16K33_SEG14_DOLLAR_CHAR
      else if char = '':'' then Inr HT16K33_SEG14_DQUOTE_CHAR
      else if str_in char ''0123456789'' then map_sum id (\<lambda>n. n - 48) (ord char)
      else if str_in char ''ABCDEFGHIJKLMNOPQRSTUVWXYZ'' then map_sum id (\<lambda>n. n - 55) (ord char)
      else if str_in char ''abcdefghijklmnopqrstuvwxyz'' then map_sum id (\<lambda>n. n - 61) (ord char)
      else Inr 0xFFFF)"

text \<open>
  The glyph of a charset entry, \<open>(CHARSET[c << 1] << 8) | CHARSET[(c << 1) + 1]\<close>.
\<close>

definition charset_glyph :: "int \<Rightarrow> error + int" where
  "charset_glyph c =
     (case getitem CHARSET14 (push_bit 1 c) of
        Inl e \<Rightarrow> Inl e
      | Inr hi \<Rightarrow>
          (case getitem CHARSET14 (push_bit 1 c + 1) of
             Inl e \<Rightarrow> Inl e
           | Inr lo \<Rightarrow> Inr (or (push_bit 8 hi) lo)))"

text \<open>
  When the assertion of \<open>set_character\<close> fails, its message is built with \<open>ord(char)\<close>,
  which itself raises TypeError on a string that is not one character long.
\<close>

definition HT16K33Segment14_set_character ::
  "seg14 \<Rightarrow> string \<Rightarrow> int \<Rightarrow> bool \<Rightarrow> seg14 result" where
  "HT16K33Segment14_set_character self char digit has_dot =
     (if \<not> (0 \<le> digit \<and> digit < 4) then Inl (AssertionError, self)
      else case seg14_char_val char of
        Inl e \<Rightarrow> Inl (e, self)
      | Inr char_val \<Rightarrow>
          if \<not> (char_val \<noteq> 0xFFFF)
          then (case ord char of
                  Inl e \<Rightarrow> Inl (e, self)
                | Inr n \<Rightarrow> Inl (AssertionError, self))
          else (case charset_glyph char_val of
                  Inl e \<Rightarrow> Inl (e, self)
                | Inr g \<Rightarrow> set_digit self g digit has_dot))"

definition HT16K33Segment14_set_number :: "seg14 \<Rightarrow> int \<Rightarrow> int \<Rightarrow> bool \<Rightarrow> seg14 result" where
  "HT16K33Segment14_set_number self number digit has_dot =
     (if \<not> (0 \<le> digit \<and> digit < 4) then Inl (AssertionError, self)
      else if \<not> (0 \<le> number \<and> number < 10) then Inl (AssertionError, self)
      else HT16K33Segment14_set_character self (str_digit number) digit has_dot)"

definition set_code :: "seg14 \<Rightarrow> int \<Rightarrow> int \<Rightarrow> bool \<Rightarrow> seg14 result" where
  "set_code self code digit has_dot =
     (if \<not> (0 \<le> digit \<and> digit < 4) then Inl (AssertionError, self)
      else if \<not> (0 \<le> code \<and> code < HT16K33_SEG14_CHAR_COUNT) then Inl (AssertionError, self)
      else case charset_glyph code of
        Inl e \<Rightarrow> Inl (e, self)
      | Inr g \<Rightarrow> set_digit self g digit has_dot)"

definition HT16K33Segment14_set_colon :: "seg14 \<Rightarrow> bool \<Rightarrow> seg14 result" where
  "HT16K33Segment14_set_colon self is_on =
     (if is_ht16k33 self then Inr self
      else if is_on then on_buffer self (\<lambda>buf. ior_item buf VK16K33_SEG14_COLON_BYTE 0x01)
      else on_buffer self (\<lambda>buf. iand_item buf VK16K33_SEG14_COLON_BYTE 0xFE))"

definition set_decimal :: "seg14 \<Rightarrow> bool \<Rightarrow> seg14 result" where
  "set_decimal self is_on =
     (if is_ht16k33 self then Inr self
      else if is_on then on_buffer self (\<lambda>buf. ior_item buf VK16K33_SEG14_DECIMAL_BYTE 0x01)
      else on_buffer self (\<lambda>buf. iand_item buf VK16K33_SEG14_DECIMAL_BYTE 0x7F))"

section \<open>Closed forms, reference functions and sample objects\<close>

text \<open>\<open>when_set c m\<close> is the mask \<open>m\<close> when the condition holds and no bit otherwise.\<close>

definition when_set :: "bool \<Rightarrow> int \<Rightarrow> int" where
  "when_set c m = (if c then m else 0)"

text \<open>
  The bit plane of the VK16K33 in closed form: what a glyph \<open>v\<close> at digit \<open>d\<close> adds to the
  buffer byte \<open>j\<close>. Bits 0 to 6 of the glyph land in the even bytes 0 to 12 under the mask
  \<open>1 << d\<close>, bits 7 to 14 in the even bytes 0 to 14 under the mask \<open>16 << d\<close>; odd bytes and
  byte 15 receive nothing.
\<close>

definition plane_byte :: "int \<Rightarrow> nat \<Rightarrow> nat \<Rightarrow> int" where
  "plane_byte v d j =
     or (if even j \<and> j < 14 \<and> bit v (j div 2) then push_bit d 1 else 0)
        (if even j \<and> j < 16 \<and> bit v (j div 2 + 7) then push_bit d 16 else 0)"

definition plane_buffer :: "int \<Rightarrow> nat \<Rightarrow> int list \<Rightarrow> int list" where
  "plane_buffer v d buf = map (\<lambda>j. or (buf ! j) (plane_byte v d j)) [0..<16]"

text \<open>
  The index sequence of the loop: the running index \<open>a\<close> and the multiplier \<open>d\<close> on entry to
  step \<open>k\<close>, that is, after steps \<open>0\<close> to \<open>k - 1\<close>.
\<close>

definition run_a :: "nat \<Rightarrow> int" where
  "run_a k = (if k \<le> 6 then 2 * int k else 2 * (int k - 7))"

definition run_d :: "nat \<Rightarrow> int" where
  "run_d k = (if k \<le> 6 then 1 else 16)"

text \<open>The 14-segment object as its constructor leaves it, at the default address.\<close>

definition blank14 :: "bool \<Rightarrow> seg14" where
  "blank14 is_ht =
     \<lparr>i2c = [(0x70, [0x21]), (0x70, [0x81])], address = 0x70, brightness = 15, flash_rate = 0,
      blink_rate = None, buffer = replicate 16 0, is_ht16k33 = is_ht\<rparr>"

text \<open>
  The two bytes of a 16-bit value, the value with the dot bit (bit 14) ORed in when the flag
  is set, and the exchange of two bits of a number: bit \<open>i\<close> takes the old value of bit \<open>j\<close>
  and bit \<open>j\<close> the old value of bit \<open>i\<close>.
\<close>

definition low_byte :: "int \<Rightarrow> int" where
  "low_byte v = v mod 256"

definition high_byte :: "int \<Rightarrow> int" where
  "high_byte v = v div 256 mod 256"

definition with_dot :: "int \<Rightarrow> bool \<Rightarrow> int" where
  "with_dot v has_dot = (if has_dot then or v 0x4000 else v)"

definition exchange_bits :: "nat \<Rightarrow> nat \<Rightarrow> int \<Rightarrow> int" where
  "exchange_bits i j x =
     (let bi = bit x i; bj = bit x j;
          x = (if bj then set_bit i x else unset_bit i x)
      in if bi then set_bit j x else unset_bit j x)"


text \<open>A 14-segment object with every segment of the buffer lit.\<close>

definition full14 :: "bool \<Rightarrow> seg14" where
  "full14 is_ht = (blank14 is_ht)\<lparr>buffer := replicate 16 0xFF\<rparr>"

text \<open>
  The turn of one digit byte: bits 6 and 7 stay, the bit group \<open>[0:3)\<close> moves up by three
  places and the group \<open>[3:6)\<close> moves down by three. The rotated buffer exchanges the bytes
  of digits 0 and 3 and of digits 1 and 2, at \<open>POS = (0, 2, 6, 8)\<close>, each turned.
\<close>

definition turn_byte :: "int \<Rightarrow> int" where
  "turn_byte x =
     or (push_bit 6 (drop_bit 6 x)) (or (push_bit 3 (take_bit 3 x)) (take_bit 3 (drop_bit 3 x)))"

definition rotated_buffer :: "int list \<Rightarrow> int list" where
  "rotated_buffer buf =
     buf[0 := turn_byte (buf ! 8), 2 := turn_byte (buf ! 6),
         6 := turn_byte (buf ! 2), 8 := turn_byte (buf ! 0)]"


text \<open>A rotated 7-segment object showing four different digit bytes and the colon.\<close>

definition rotated7 :: seg7 where
  "rotated7 =
     \<lparr>i2c = [(0x70, [0x21]), (0x70, [0x81])], address = 0x70, brightness = 15, flash_rate = 0,
      blink_rate = None,
      buffer = [0x3F, 0, 0x86, 0, 0x02, 0, 0x5B, 0, 0x4F, 0, 0, 0, 0, 0, 0, 0],
      is_rotated = True\<rparr>"

text \<open>
  The character set of the 7-segment display as a table from the lowercased input to the
  index into \<open>CHARSET\<close>, and the characters the 14-segment display accepts: the seven
  symbols, the digits and the letters, each as a string of one character.
\<close>

definition charset_table7 :: "(string \<times> nat) list" where
  "charset_table7 =
     [(''deg'', 0x11), (''-'', 0x10), ('' '', 0x12),
      (''a'', 10), (''b'', 11), (''c'', 12), (''d'', 13), (''e'', 14), (''f'', 15),
      (''0'', 0), (''1'', 1), (''2'', 2), (''3'', 3), (''4'', 4),
      (''5'', 5), (''6'', 6), (''7'', 7), (''8'', 8), (''9'', 9)]"

definition charset14_chars :: string where
  "charset14_chars =
     ''-*+ /$:0123456789ABCDEFGHIJKLMNOPQRSTUVWXYZabcdefghijklmnopqrstuvwxyz''"

definition supported14 :: "string \<Rightarrow> bool" where
  "supported14 s = (case s of [c] \<Rightarrow> c \<in> set charset14_chars | _ \<Rightarrow> False)"


text \<open>
  Lowercasing as a table: each of the twenty-six ASCII capitals is sent to its small letter,
  every other character to itself.
\<close>

definition ascii_lower :: "char \<Rightarrow> char" where
  "ascii_lower c =
     (case map_of (zip ''ABCDEFGHIJKLMNOPQRSTUVWXYZ'' ''abcdefghijklmnopqrstuvwxyz'') c of
        Some d \<Rightarrow> d
      | None \<Rightarrow> c)"

text \<open>The 7-segment object as its constructor leaves it, at the default address.\<close>

definition blank7 :: seg7 where
  "blank7 =
     \<lparr>i2c = [(0x70, [0x21]), (0x70, [0x81])], address = 0x70, brightness = 15, flash_rate = 0,
      blink_rate = None, buffer = replicate 16 0, is_rotated = False\<rparr>"

section \<open>Basic facts about subscripts and byte arrays\<close>

lemma index_of_nat: "0 \<le> i \<Longrightarrow> i < int (length xs) \<Longrightarrow> index_of xs i = Some (nat i)"
  by (simp add: index_of_def)

lemma getitem_ok: "0 \<le> i \<Longrightarrow> i < int (length xs) \<Longrightarrow> getitem xs i = Inr (xs ! nat i)"
  by (simp add: getitem_def index_of_nat)

lemma getitem_out: "int (length xs) \<le> i \<Longrightarrow> getitem xs i = Inl IndexError"
  by (simp add: getitem_def index_of_def)

lemma setitem_ok:
  "0 \<le> i \<Longrightarrow> i < int (length buf) \<Longrightarrow> 0 \<le> v \<Longrightarrow> v < 256 \<Longrightarrow> setitem buf i v = Inr (buf[nat i := v])"
  by (simp add: setitem_def index_of_nat)

lemma bytearray16_length: "bytearray16 buf \<Longrightarrow> length buf = 16"
  by (simp add: bytearray16_def)

lemma bytearray16_nth: "bytearray16 buf \<Longrightarrow> j < 16 \<Longrightarrow> 0 \<le> buf ! j \<and> buf ! j < 256"
  by (simp add: bytearray16_def list_all_length)

lemma bytearray16_update:
  "bytearray16 buf \<Longrightarrow> 0 \<le> v \<Longrightarrow> v < 256 \<Longrightarrow> bytearray16 (buf[j := v])"
  by (auto simp: bytearray16_def list_all_iff dest!: subsetD[OF set_update_subset_insert])

lemma blank_bytes: "bytearray16 (replicate 16 0)"
  by (simp add: bytearray16_def list_all_length)

lemma or_byte: "0 \<le> x \<Longrightarrow> x < 256 \<Longrightarrow> 0 \<le> m \<Longrightarrow> m < 256 \<Longrightarrow> 0 \<le> or x m \<and> or x (m::int) < 256"
  using OR_upper[of x 8 m] by simp

section \<open>Power-on sequence\<close>

lemma power_on_log:
  "power_on self = Inr (self\<lparr>i2c := i2c self @ [(address self, [0x21]), (address self, [0x81])]\<rparr>)"
  by (simp add: power_on_def bind_def write_cmd_def HT16K33_GENERIC_SYSTEM_ON_def
      HT16K33_GENERIC_DISPLAY_ON_def)

text \<open>
  C7 (amended). \<open>power_on\<close> writes exactly two one-byte commands, first the system-on
  command \<open>0x21\<close>, then the display-on command \<open>0x81\<close>; and each constructor, given a valid
  address, returns an object whose bus log is the log it was handed followed by these two
  writes and nothing else, so \<open>power_on\<close> has run once.
\<close>

theorem power_on_commands:
  "power_on self =
     Inr (self\<lparr>i2c := i2c self @ [(address self, [0x21]), (address self, [0x81])]\<rparr>)
   \<and> (0 \<le> addr \<and> addr < 0x80 \<longrightarrow>
        HT16K33Segment14_init bus addr is_ht =
          Inr \<lparr>i2c = bus @ [(addr, [0x21]), (addr, [0x81])], address = addr, brightness = 15,
               flash_rate = 0, blink_rate = None, buffer = replicate 16 0, is_ht16k33 = is_ht\<rparr>
      \<and> HT16K33Segment_init bus addr =
          Inr \<lparr>i2c = bus @ [(addr, [0x21]), (addr, [0x81])], address = addr, brightness = 15,
               flash_rate = 0, blink_rate = None, buffer = replicate 16 0, is_rotated = False\<rparr>)"
  by (simp add: HT16K33Segment14_init_def HT16K33Segment_init_def HT16K33_init_def power_on_log)

theorem power_on_commands_witness:
  "HT16K33Segment14_init [] 0x70 False = Inr (blank14 False)"
  using power_on_commands[where self = "blank14 False" and addr = "0x70" and bus = "[]"
      and is_ht = False]
  by (simp add: blank14_def)

text \<open>
  The claim as stated fails: constructing at address \<open>0x70\<close> on a fresh bus logs the bytes
  \<open>0x21\<close> and \<open>0x81\<close>, not \<open>0x20\<close> and \<open>0x80\<close>.
\<close>

theorem power_on_commands_counterexample:
  "map_sum fst i2c (HT16K33Segment14_init [] 0x70 False) = Inr [(0x70, [0x21]), (0x70, [0x81])]
   \<and> map_sum fst i2c (HT16K33Segment14_init [] 0x70 False) \<noteq> Inr [(0x70, [0x20]), (0x70, [0x80])]"
  by (simp add: HT16K33Segment14_init_def HT16K33_init_def power_on_log)

section \<open>Blink rate\<close>

lemma set_blink_rate_int:
  "n \<in> {0, 1, 2} \<Longrightarrow> set_blink_rate self (PyInt n) =
     Inr (self\<lparr>blink_rate := Some n, i2c := i2c self @ [(address self, [or 0x81 (push_bit 1 n)])]\<rparr>)"
  by (auto simp add: set_blink_rate_def py_in_tuple_def py_eq_def write_cmd_def
      HT16K33_GENERIC_CMD_BLINK_def)

lemma set_blink_rate_rejected:
  "num_val r \<notin> {0, 1 / 2, 1, 2} \<Longrightarrow> set_blink_rate self r = Inl (AssertionError, self)"
  by (auto simp add: set_blink_rate_def py_in_tuple_def py_eq_def)

text \<open>
  C9. The rate \<open>0.5\<close> is in the permitted tuple, so the assertion lets it through; then
  \<open>rate & 0x03\<close> raises TypeError on the float, before any attribute is set and before
  any bus write. The claim says the call succeeds and transmits a command.
\<close>

theorem set_blink_rate_half_hertz:
  "py_in_tuple (PyFloat (1 / 2)) [PyInt 0, PyFloat (1 / 2), PyInt 1, PyInt 2]
   \<and> set_blink_rate self (PyFloat (1 / 2)) = Inl (TypeError, self)"
  by (simp add: set_blink_rate_def py_in_tuple_def py_eq_def)

section \<open>The VK16K33 digit writer\<close>

lemma when_set_or: "or (when_set A m) (when_set B m) = when_set (A \<or> B) m"
  by (simp add: when_set_def)

lemma shifted_bounds:
  assumes "0 \<le> digit" "digit < 4" "d = 1 \<or> d = 16"
  shows "0 \<le> push_bit (nat digit) (d::int) \<and> push_bit (nat digit) d < 256"
proof -
  from assms(1,2) have "digit = 0 \<or> digit = 1 \<or> digit = 2 \<or> digit = 3" by arith
  with assms(3) show ?thesis by (auto simp: push_bit_eq_mult)
qed

lemma when_set_bounds:
  assumes "0 \<le> digit" "digit < 4" "d = 1 \<or> d = 16"
  shows "0 \<le> when_set c (push_bit (nat digit) d)" "when_set c (push_bit (nat digit) d) < 256"
  using shifted_bounds[OF assms] by (simp_all add: when_set_def)

lemma when_set_byte:
  assumes "d < 4" "m = 1 \<or> m = 16"
  shows "0 \<le> when_set c (push_bit d (m::int)) \<and> when_set c (push_bit d m) < 256"
  using when_set_bounds[of "int d" m c] assms by simp

lemma vk_step:
  assumes "bytearray16 buf" "0 \<le> a" "a < 16" "0 \<le> digit" "digit < 4" "d = 1 \<or> d = 16"
  shows "(if c then vk_write buf a d digit else Inr buf) =
           Inr (buf[nat a := or (buf ! nat a) (when_set c (push_bit (nat digit) d))])"
proof (cases c)
  case False
  then show ?thesis by (simp add: when_set_def)
next
  case True
  have len: "length buf = 16" using assms(1) by (rule bytearray16_length)
  have x: "0 \<le> buf ! nat a \<and> buf ! nat a < 256"
    using assms(1-3) by (intro bytearray16_nth) auto
  have m: "0 \<le> push_bit (nat digit) d \<and> push_bit (nat digit) d < 256"
    using assms(4-6) by (rule shifted_bounds)
  have "0 \<le> or (buf ! nat a) (push_bit (nat digit) d) \<and> or (buf ! nat a) (push_bit (nat digit) d) < 256"
    using x m by (intro or_byte) auto
  then show ?thesis
    using True assms(2-4) len
    by (simp add: vk_write_def getitem_ok lshift_def setitem_ok when_set_def)
qed

lemma vk_loop_append:
  "vk_loop v d (xs @ ys) s = (case vk_loop v d xs s of Inl x \<Rightarrow> Inl x | Inr t \<Rightarrow> vk_loop v d ys t)"
  by (induction v d xs s rule: vk_loop.induct) (auto split: sum.splits)

lemma plane_buffer_length: "length (plane_buffer v d buf) = 16"
  by (simp add: plane_buffer_def)

lemma plane_buffer_nth: "j < 16 \<Longrightarrow> plane_buffer v d buf ! j = or (buf ! j) (plane_byte v d j)"
  by (simp add: plane_buffer_def)

lemma plane_byte_take_bit:
  "plane_byte (take_bit n v) d j =
     or (when_set (even j \<and> j < 14 \<and> j div 2 < n \<and> bit v (j div 2)) (push_bit d 1))
        (when_set (even j \<and> j < 16 \<and> j div 2 + 7 < n \<and> bit v (j div 2 + 7)) (push_bit d 16))"
  by (simp add: plane_byte_def bit_take_bit_iff when_set_def)

lemma low_bank_step:
  assumes "k \<le> 6"
  shows "(even j \<and> j < 14 \<and> j div 2 < Suc k \<and> bit v (j div 2)) \<longleftrightarrow>
         (even j \<and> j < 14 \<and> j div 2 < k \<and> bit v (j div 2)) \<or> (j = 2 * k \<and> bit v k)"
proof -
  have a: "j div 2 < Suc k \<longleftrightarrow> j div 2 < k \<or> j div 2 = k" by arith
  have b: "j = 2 * k \<longleftrightarrow> even j \<and> j div 2 = k" by presburger
  have c: "even j \<Longrightarrow> j div 2 = k \<Longrightarrow> j < 14" using assms by presburger
  show ?thesis unfolding a b using c by auto
qed

lemma high_bank_step:
  assumes "7 \<le> k" "k \<le> 14"
  shows "(even j \<and> j < 16 \<and> j div 2 + 7 < Suc k \<and> bit v (j div 2 + 7)) \<longleftrightarrow>
         (even j \<and> j < 16 \<and> j div 2 + 7 < k \<and> bit v (j div 2 + 7)) \<or> (j = 2 * (k - 7) \<and> bit v k)"
proof -
  have a: "j div 2 + 7 < Suc k \<longleftrightarrow> j div 2 + 7 < k \<or> j div 2 + 7 = k" by arith
  have b: "j = 2 * (k - 7) \<longleftrightarrow> even j \<and> j div 2 + 7 = k" using assms(1) by presburger
  have c: "even j \<Longrightarrow> j div 2 + 7 = k \<Longrightarrow> j < 16" using assms by presburger
  show ?thesis unfolding a b using c by auto
qed

lemma plane_byte_Suc:
  assumes "k \<le> 14"
  shows "plane_byte (take_bit (Suc k) v) d j =
     or (plane_byte (take_bit k v) d j)
        (when_set (j = nat (run_a k) \<and> bit v k) (push_bit d (run_d k)))"
proof (cases "k \<le> 6")
  case True
  have h: "\<not> j div 2 + 7 < Suc k" "\<not> j div 2 + 7 < k" using True by arith+
  have a: "nat (run_a k) = 2 * k" using True by (simp add: run_a_def)
  have d: "run_d k = 1" using True by (simp add: run_d_def)
  show ?thesis
    unfolding plane_byte_take_bit low_bank_step[OF True] a d
    by (simp only: h when_set_or[symmetric] or.assoc or.commute or.left_commute conj_assoc simp_thms)
next
  case False
  then have k7: "7 \<le> k" by simp
  have l: "even j \<and> j < 14 \<and> j div 2 < Suc k \<and> bit v (j div 2) \<longleftrightarrow> even j \<and> j < 14 \<and> j div 2 < k \<and> bit v (j div 2)"
    using k7 by (cases "j < 14") auto
  have a: "nat (run_a k) = 2 * (k - 7)" using k7 by (simp add: run_a_def)
  have d: "run_d k = 16" using False by (simp add: run_d_def)
  show ?thesis
    unfolding plane_byte_take_bit high_bank_step[OF k7 assms] a d l
    by (simp only: when_set_or[symmetric] or.assoc)
qed

lemma plane_byte_bounds:
  assumes "d < 4"
  shows "0 \<le> plane_byte v d j \<and> plane_byte v d j < 256"
proof -
  have "plane_byte v d j =
     or (when_set (even j \<and> j < 14 \<and> bit v (j div 2)) (push_bit d 1))
        (when_set (even j \<and> j < 16 \<and> bit v (j div 2 + 7)) (push_bit d 16))"
    by (simp add: plane_byte_def when_set_def)
  then show ?thesis
    using when_set_byte[OF assms, of 1] when_set_byte[OF assms, of 16] or_byte by simp
qed

lemma plane_buffer_bytes:
  assumes "bytearray16 buf" "d < 4"
  shows "bytearray16 (plane_buffer v d buf)"
proof -
  have "0 \<le> or (buf ! j) (plane_byte v d j) \<and> or (buf ! j) (plane_byte v d j) < 256" if "j < 16" for j
    using bytearray16_nth[OF assms(1) that] plane_byte_bounds[OF assms(2), of v j] or_byte by simp
  then show ?thesis
    by (simp add: bytearray16_def plane_buffer_def list_all_length)
qed

lemma plane_buffer_0:
  assumes "length buf = 16"
  shows "plane_buffer 0 d buf = buf"
  using assms by (intro nth_equalityI) (simp_all add: plane_buffer_def plane_byte_def)

lemma plane_buffer_take_bit: "15 \<le> n \<Longrightarrow> plane_buffer (take_bit n v) d buf = plane_buffer v d buf"
proof -
  assume n: "15 \<le> n"
  have "plane_byte (take_bit n v) d j = plane_byte v d j" if "j < 16" for j
  proof -
    have "even j \<Longrightarrow> j < 14 \<Longrightarrow> j div 2 < n" "even j \<Longrightarrow> j div 2 + 7 < n" using that n by presburger+
    then show ?thesis
      by (auto simp add: plane_byte_def bit_take_bit_iff)
  qed
  then show ?thesis by (simp add: plane_buffer_def)
qed

lemma run_a_range: "k \<le> 14 \<Longrightarrow> 0 \<le> run_a k \<and> run_a k < 16"
  by (simp add: run_a_def)

lemma plane_buffer_Suc:
  assumes "k \<le> 14"
  shows "(plane_buffer (take_bit k v) d buf)
           [nat (run_a k) := or (plane_buffer (take_bit k v) d buf ! nat (run_a k))
                                (when_set (bit v k) (push_bit d (run_d k)))]
         = plane_buffer (take_bit (Suc k) v) d buf"
proof (rule nth_equalityI)
  show "length ((plane_buffer (take_bit k v) d buf)
           [nat (run_a k) := or (plane_buffer (take_bit k v) d buf ! nat (run_a k))
                                (when_set (bit v k) (push_bit d (run_d k)))])
        = length (plane_buffer (take_bit (Suc k) v) d buf)"
    by (simp add: plane_buffer_length)
next
  fix j
  assume "j < length ((plane_buffer (take_bit k v) d buf)
           [nat (run_a k) := or (plane_buffer (take_bit k v) d buf ! nat (run_a k))
                                (when_set (bit v k) (push_bit d (run_d k)))])"
  then have j: "j < 16" by (simp add: plane_buffer_length)
  have a: "nat (run_a k) < 16" using run_a_range[OF assms] by arith
  show "(plane_buffer (take_bit k v) d buf)
           [nat (run_a k) := or (plane_buffer (take_bit k v) d buf ! nat (run_a k))
                                (when_set (bit v k) (push_bit d (run_d k)))] ! j
        = plane_buffer (take_bit (Suc k) v) d buf ! j"
  proof (cases "j = nat (run_a k)")
    case True
    then show ?thesis
      using j by (simp add: plane_buffer_length plane_buffer_nth plane_byte_Suc[OF assms] or.assoc)
  next
    case False
    then show ?thesis
      using j by (simp add: plane_buffer_nth plane_byte_Suc[OF assms] when_set_def)
  qed
qed

lemma vk_loop_prefix:
  assumes "bytearray16 buf" "0 \<le> digit" "digit < 4"
  shows "k \<le> 15 \<Longrightarrow>
    vk_loop v digit [0..<k] (0, 1, buf) =
      Inr (run_a k, run_d k, plane_buffer (take_bit k v) (nat digit) buf)"
proof (induction k)
  case 0
  then show ?case
    using bytearray16_length[OF assms(1)] by (simp add: run_a_def run_d_def plane_buffer_0)
next
  case (Suc k)
  then have k: "k \<le> 14" by simp
  let ?B = "plane_buffer (take_bit k v) (nat digit) buf"
  have B: "bytearray16 ?B" using assms by (intro plane_buffer_bytes) auto
  have d: "run_d k = 1 \<or> run_d k = 16" by (simp add: run_d_def)
  have step: "(if and v (push_bit k 1) \<noteq> 0 then vk_write ?B (run_a k) (run_d k) digit else Inr ?B)
      = Inr (plane_buffer (take_bit (Suc k) v) (nat digit) buf)"
    using vk_step[OF B _ _ assms(2,3) d, of "run_a k" "and v (push_bit k 1) \<noteq> 0"] run_a_range[OF k]
      plane_buffer_Suc[OF k, of v "nat digit" buf]
    by (simp add: bit_iff_and_push_bit_not_eq_0[symmetric] del: push_bit_of_1)
  have nxt: "(if k = 6 then (0, 16) else (run_a k + 2, run_d k)) = (run_a (Suc k), run_d (Suc k))"
    by (auto simp: run_a_def run_d_def)
  have "vk_loop v digit [0..<Suc k] (0, 1, buf) = vk_loop v digit [k] (run_a k, run_d k, ?B)"
    using Suc k by (simp add: vk_loop_append)
  also have "\<dots> = Inr (run_a (Suc k), run_d (Suc k), plane_buffer (take_bit (Suc k) v) (nat digit) buf)"
    using nxt by (simp add: step Let_def del: push_bit_of_1 split: if_splits)
  finally show ?case .
qed

lemma upt16: "[0..<16] = [0..<15] @ [15]"
  using upt_Suc_append[of 0 15] by simp

lemma bit15_clear: "0 \<le> v \<Longrightarrow> v < 0x8000 \<Longrightarrow> and v (push_bit 15 1) = (0::int)"
proof -
  assume "0 \<le> v" "v < 0x8000"
  then have "\<not> bit v 15" by (simp add: bit_iff_odd_drop_bit drop_bit_eq_div)
  then show ?thesis by (simp only: bit_iff_and_push_bit_not_eq_0 simp_thms)
qed

lemma bit15_set: "0x8000 \<le> v \<Longrightarrow> v < 0xFFFF \<Longrightarrow> and v (push_bit 15 1) \<noteq> (0::int)"
proof -
  assume v: "0x8000 \<le> v" "v < 0xFFFF"
  then have "v div 32768 = 1" by simp
  then have "bit v 15" by (simp add: bit_iff_odd_drop_bit drop_bit_eq_div)
  then show ?thesis by (simp only: bit_iff_and_push_bit_not_eq_0 simp_thms)
qed

lemma vk_loop_full:
  assumes "bytearray16 buf" "0 \<le> digit" "digit < 4" "0 \<le> v" "v < 0x8000"
  shows "vk_loop v digit [0..<16] (0, 1, buf) = Inr (18, 16, plane_buffer v (nat digit) buf)"
  using vk_loop_prefix[OF assms(1-3), of 15 v] bit15_clear[OF assms(4,5)]
  by (simp add: upt16 vk_loop_append run_a_def run_d_def plane_buffer_take_bit del: push_bit_of_1 upt_Suc)

lemma vk_loop_overrun:
  assumes "bytearray16 buf" "0 \<le> digit" "digit < 4" "0x8000 \<le> v" "v < 0xFFFF"
  shows "vk_loop v digit [0..<16] (0, 1, buf) = Inl (IndexError, plane_buffer v (nat digit) buf)"
  using vk_loop_prefix[OF assms(1-3), of 15 v] bit15_set[OF assms(4,5)]
  by (simp add: upt16 vk_loop_append run_a_def run_d_def plane_buffer_take_bit vk_write_def
      getitem_out plane_buffer_length del: push_bit_of_1 upt_Suc)

text \<open>
  C1. With \<open>is_ht16k33 = False\<close>, a digit in \<open>[0, 4)\<close> and a glyph in \<open>[0, 0x8000)\<close>,
  \<open>set_glyph\<close> returns, and the buffer it leaves is the old one with the bit plane of the
  glyph ORed in: byte \<open>j\<close> becomes \<open>buffer[j] | plane_byte glyph digit j\<close>, so a byte the
  sequence does not address keeps its value. The loop follows the index sequence: on entry
  to step \<open>k\<close> the running index is \<open>run_a k\<close> (0, 2, .., 12, then 0 again after step 6, 2,
  .., 16), the multiplier is \<open>run_d k\<close> (1 up to step 6, 16 after it), and the bits below
  \<open>k\<close> have been written.
\<close>

theorem vk16k33_digit_writer:
  assumes "\<not> is_ht16k33 self" "bytearray16 (buffer self)"
    and "0 \<le> digit" "digit < 4" "0 \<le> glyph" "glyph < 0x8000"
  shows "HT16K33Segment14_set_glyph self glyph digit has_dot =
           Inr (self\<lparr>buffer := plane_buffer glyph (nat digit) (buffer self)\<rparr>)
       \<and> (\<forall>k\<le>16. vk_loop glyph digit [0..<k] (0, 1, buffer self) =
             Inr (run_a k, run_d k, plane_buffer (take_bit k glyph) (nat digit) (buffer self)))"
proof
  show "HT16K33Segment14_set_glyph self glyph digit has_dot =
           Inr (self\<lparr>buffer := plane_buffer glyph (nat digit) (buffer self)\<rparr>)"
    using assms vk_loop_full[OF assms(2-6)]
    by (simp add: HT16K33Segment14_set_glyph_def set_digit_def on_buffer_def vk_digit_def)
next
  show "\<forall>k\<le>16. vk_loop glyph digit [0..<k] (0, 1, buffer self) =
             Inr (run_a k, run_d k, plane_buffer (take_bit k glyph) (nat digit) (buffer self))"
  proof (intro allI impI)
    fix k :: nat assume "k \<le> 16"
    then consider "k \<le> 15" | "k = 16" by arith
    then show "vk_loop glyph digit [0..<k] (0, 1, buffer self) =
             Inr (run_a k, run_d k, plane_buffer (take_bit k glyph) (nat digit) (buffer self))"
    proof cases
      case 1
      then show ?thesis using vk_loop_prefix[OF assms(2-4)] by simp
    next
      case 2
      then show ?thesis
        using vk_loop_full[OF assms(2-6)] by (simp add: run_a_def run_d_def plane_buffer_take_bit)
    qed
  qed
qed

lemma plane_buffer_sample_1:
  "plane_buffer 0x2401 1 (replicate 16 0) = [2, 0, 0, 0, 0, 0, 32, 0, 0, 0, 0, 0, 32, 0, 0, 0]"
  by code_simp

theorem vk16k33_digit_writer_witness:
  "HT16K33Segment14_set_glyph (blank14 False) 0x2401 1 True =
     Inr ((blank14 False)\<lparr>buffer := [2, 0, 0, 0, 0, 0, 32, 0, 0, 0, 0, 0, 32, 0, 0, 0]\<rparr>)"
  using vk16k33_digit_writer[where self = "blank14 False" and digit = 1 and glyph = "0x2401"
      and has_dot = True] blank_bytes plane_buffer_sample_1
  by (simp add: blank14_def)

text \<open>
  C6. With \<open>is_ht16k33 = False\<close>, a digit in \<open>[0, 4)\<close> and a glyph in \<open>[0x8000, 0xFFFF)\<close>,
  both assertions of \<open>set_glyph\<close> pass. Steps 0 to 14 of the loop run, leaving the running
  index at 16 and the bit plane of the glyph in the buffer; at step 15 bit 15 is set, the
  read of \<open>buffer[16]\<close> raises IndexError, and the call ends there with the writes of the
  lower bits kept.
\<close>

theorem vk16k33_bit15_overrun:
  assumes "\<not> is_ht16k33 self" "bytearray16 (buffer self)"
    and "0 \<le> digit" "digit < 4" "0x8000 \<le> glyph" "glyph < 0xFFFF"
  shows "vk_loop glyph digit [0..<15] (0, 1, buffer self) =
           Inr (16, 16, plane_buffer glyph (nat digit) (buffer self))
       \<and> getitem (plane_buffer glyph (nat digit) (buffer self)) 16 = Inl IndexError
       \<and> HT16K33Segment14_set_glyph self glyph digit has_dot =
           Inl (IndexError, self\<lparr>buffer := plane_buffer glyph (nat digit) (buffer self)\<rparr>)"
proof (intro conjI)
  show "vk_loop glyph digit [0..<15] (0, 1, buffer self) =
           Inr (16, 16, plane_buffer glyph (nat digit) (buffer self))"
    using vk_loop_prefix[OF assms(2-4), of 15 glyph]
    by (simp add: run_a_def run_d_def plane_buffer_take_bit)
  show "getitem (plane_buffer glyph (nat digit) (buffer self)) 16 = Inl IndexError"
    by (simp add: getitem_out plane_buffer_length)
  show "HT16K33Segment14_set_glyph self glyph digit has_dot =
           Inl (IndexError, self\<lparr>buffer := plane_buffer glyph (nat digit) (buffer self)\<rparr>)"
    using assms vk_loop_overrun[OF assms(2-6)]
    by (simp add: HT16K33Segment14_set_glyph_def set_digit_def on_buffer_def vk_digit_def)
qed

lemma plane_buffer_sample_2:
  "plane_buffer 0x8001 0 (replicate 16 0) = [1, 0, 0, 0, 0, 0, 0, 0, 0, 0, 0, 0, 0, 0, 0, 0]"
  by code_simp

theorem vk16k33_bit15_overrun_witness:
  "HT16K33Segment14_set_glyph (blank14 False) 0x8001 0 False =
     Inl (IndexError, (blank14 False)\<lparr>buffer := [1, 0, 0, 0, 0, 0, 0, 0, 0, 0, 0, 0, 0, 0, 0, 0]\<rparr>)"
  using vk16k33_bit15_overrun[where self = "blank14 False" and digit = 0 and glyph = "0x8001"
      and has_dot = False] blank_bytes plane_buffer_sample_2
  by (simp add: blank14_def)

text \<open>
  C10. With \<open>is_ht16k33 = False\<close> the dot flag is never read: each of the four operations
  gives the same result, the same buffer or the same exception, with and without it.
\<close>

theorem vk16k33_has_dot_ignored:
  "\<not> is_ht16k33 self \<Longrightarrow>
     HT16K33Segment14_set_glyph self g d True = HT16K33Segment14_set_glyph self g d False
   \<and> HT16K33Segment14_set_number self n d True = HT16K33Segment14_set_number self n d False
   \<and> HT16K33Segment14_set_character self c d True = HT16K33Segment14_set_character self c d False
   \<and> set_code self k d True = set_code self k d False"
  by (simp add: HT16K33Segment14_set_glyph_def HT16K33Segment14_set_number_def
      HT16K33Segment14_set_character_def set_code_def set_digit_def split: sum.split)

theorem vk16k33_has_dot_ignored_witness:
  "HT16K33Segment14_set_glyph (blank14 False) 0x2401 1 True =
     HT16K33Segment14_set_glyph (blank14 False) 0x2401 1 False
   \<and> HT16K33Segment14_set_number (blank14 False) 7 1 True =
     HT16K33Segment14_set_number (blank14 False) 7 1 False
   \<and> HT16K33Segment14_set_character (blank14 False) ''A'' 1 True =
     HT16K33Segment14_set_character (blank14 False) ''A'' 1 False
   \<and> set_code (blank14 False) 65 1 True = set_code (blank14 False) 65 1 False"
  using vk16k33_has_dot_ignored[where self = "blank14 False" and g = "0x2401" and d = 1
      and n = 7 and c = "''A''" and k = 65]
  by (simp add: blank14_def)

section \<open>The HT16K33 digit writer\<close>

lemma bit_exchange_bits:
  "bit (exchange_bits i j x) n \<longleftrightarrow> bit x (if n = i then j else if n = j then i else n)"
  by (auto simp add: exchange_bits_def Let_def bit_set_bit_iff bit_unset_bit_iff)

lemma byte_mask: "(0xFF::int) = mask 8"
  by (simp add: mask_eq_exp_minus_1)

lemma high_byte_bits: "and (drop_bit 8 v) 0xFF = high_byte v"
  by (simp add: byte_mask take_bit_eq_mask[symmetric] take_bit_eq_mod drop_bit_eq_div high_byte_def)

lemma low_byte_bits: "and v 0xFF = low_byte v"
  by (simp add: byte_mask take_bit_eq_mask[symmetric] take_bit_eq_mod low_byte_def)

lemma byte_bit: "bit (high_byte v) n \<Longrightarrow> n < 8"
proof -
  have "high_byte v = take_bit 8 (v div 256)" by (simp add: high_byte_def take_bit_eq_mod)
  then show "bit (high_byte v) n \<Longrightarrow> n < 8" by (simp add: bit_take_bit_iff)
qed

lemma bit_8: "bit (8::int) n \<longleftrightarrow> n = 3"
  using bit_exp_iff[where ?'a = int, of 3 n] by simp

lemma bit_32: "bit (32::int) n \<longleftrightarrow> n = 5"
  using bit_exp_iff[where ?'a = int, of 5 n] by simp

lemma bit_255: "bit (255::int) n \<longleftrightarrow> n < 8"
  using bit_mask_iff[where ?'a = int, of 8 n] by (simp add: mask_eq_exp_minus_1)

lemma bit_D7: "bit (0xD7::int) n \<longleftrightarrow> n < 8 \<and> n \<noteq> 3 \<and> n \<noteq> 5"
proof -
  have "(0xD7::int) = and 255 (not (or 8 32))" by simp
  then have "bit (0xD7::int) n \<longleftrightarrow> bit (and 255 (not (or (8::int) 32))) n" by simp
  also have "\<dots> \<longleftrightarrow> n < 8 \<and> n \<noteq> 3 \<and> n \<noteq> 5"
    unfolding bit_and_iff bit_not_iff bit_or_iff bit_8 bit_32 bit_255 by simp
  finally show ?thesis .
qed

lemma swap_expr:
  "or (or (and (high_byte v) 0xD7) (push_bit 2 (and (high_byte v) 0x08))) (drop_bit 2 (and (high_byte v) 0x20))
     = exchange_bits 3 5 (high_byte v)"
proof (rule bit_eqI)
  fix n
  have a: "bit (and (high_byte v) 0xD7) n \<longleftrightarrow> bit (high_byte v) n \<and> n \<noteq> 3 \<and> n \<noteq> 5"
    using byte_bit[of v n] by (auto simp add: bit_and_iff bit_D7)
  have b: "bit (push_bit 2 (and (high_byte v) 0x08)) n \<longleftrightarrow> n = 5 \<and> bit (high_byte v) 3"
    by (auto simp add: bit_push_bit_iff bit_and_iff bit_8 bit_32)
  have c: "bit (drop_bit 2 (and (high_byte v) 0x20)) n \<longleftrightarrow> n = 3 \<and> bit (high_byte v) 5"
    by (auto simp add: bit_drop_bit_eq bit_and_iff bit_8 bit_32)
  show "bit (or (or (and (high_byte v) 0xD7) (push_bit 2 (and (high_byte v) 0x08)))
               (drop_bit 2 (and (high_byte v) 0x20))) n
        \<longleftrightarrow> bit (exchange_bits 3 5 (high_byte v)) n"
    unfolding bit_or_iff a b c bit_exchange_bits by auto
qed

lemma exchanged_byte:
  "0 \<le> exchange_bits 3 5 (high_byte v) \<and> exchange_bits 3 5 (high_byte v) < 256"
proof -
  have "take_bit 8 (exchange_bits 3 5 (high_byte v)) = exchange_bits 3 5 (high_byte v)"
  proof (rule bit_eqI)
    fix n
    show "bit (take_bit 8 (exchange_bits 3 5 (high_byte v))) n \<longleftrightarrow> bit (exchange_bits 3 5 (high_byte v)) n"
      using byte_bit[of v n] byte_bit[of v 3] byte_bit[of v 5]
      by (auto simp add: bit_take_bit_iff bit_exchange_bits split: if_splits)
  qed
  moreover have "0 \<le> take_bit 8 (exchange_bits 3 5 (high_byte v))" by simp
  moreover have "take_bit 8 (exchange_bits 3 5 (high_byte v)) < 2 ^ 8" by (rule take_bit_int_less_exp)
  ultimately show ?thesis by simp
qed

lemma ht_digit_ok:
  assumes "bytearray16 buf" "0 \<le> digit" "digit < 4"
  shows "ht_digit buf v digit has_dot =
           Inr (buf[nat (2 * digit + 1) := exchange_bits 3 5 (high_byte (with_dot v has_dot)),
                    nat (2 * digit) := low_byte (with_dot v has_dot)])"
proof -
  have len: "length buf = 16" using assms(1) by (rule bytearray16_length)
  have sh: "lshift digit 1 = Inr (2 * digit)" using assms(2) by (simp add: lshift_def)
  have dot: "(if has_dot then or v HT16K33_SEG14_DP_VALUE else v) = with_dot v has_dot"
    by (simp add: with_dot_def HT16K33_SEG14_DP_VALUE_def)
  have lo: "0 \<le> low_byte (with_dot v has_dot) \<and> low_byte (with_dot v has_dot) < 256"
    by (simp add: low_byte_def)
  show ?thesis
    unfolding ht_digit_def Let_def dot
    unfolding high_byte_bits
    unfolding low_byte_bits swap_expr sh
    using assms(2,3) len lo exchanged_byte[of "with_dot v has_dot"]
    by (simp add: bind_def setitem_ok)
qed


text \<open>
  C2. With \<open>is_ht16k33 = True\<close>, a digit in \<open>[0, 4)\<close> and a glyph in \<open>[0, 0xFFFF)\<close>,
  \<open>set_glyph\<close> returns; the value written is the glyph with bit 14 ORed in when the dot flag
  is set; its low byte is stored at \<open>buffer[2 * digit]\<close>, and its high byte with bits 3 and 5
  exchanged, every other bit of the byte as it was, at \<open>buffer[2 * digit + 1]\<close>.
\<close>

theorem ht16k33_digit_writer:
  assumes "is_ht16k33 self" "bytearray16 (buffer self)"
    and "0 \<le> digit" "digit < 4" "0 \<le> glyph" "glyph < 0xFFFF"
  shows "HT16K33Segment14_set_glyph self glyph digit has_dot =
           Inr (self\<lparr>buffer := (buffer self)
                  [nat (2 * digit + 1) := exchange_bits 3 5 (high_byte (with_dot glyph has_dot)),
                   nat (2 * digit) := low_byte (with_dot glyph has_dot)]\<rparr>)
       \<and> (\<forall>n. bit (exchange_bits 3 5 (high_byte (with_dot glyph has_dot))) n \<longleftrightarrow>
                bit (high_byte (with_dot glyph has_dot)) (if n = 3 then 5 else if n = 5 then 3 else n))"
  using assms ht_digit_ok[OF assms(2-4)]
  by (simp add: HT16K33Segment14_set_glyph_def set_digit_def on_buffer_def bit_exchange_bits)

lemma ht16k33_sample: "exchange_bits 3 5 (high_byte (with_dot 0x0A3C True)) = 0x62"
  "low_byte (with_dot 0x0A3C True) = 0x3C"
  "(replicate 16 (0::int))[5 := 0x62, 4 := 0x3C] = [0, 0, 0, 0, 0x3C, 0x62, 0, 0, 0, 0, 0, 0, 0, 0, 0, 0]"
  by code_simp+

theorem ht16k33_digit_writer_witness:
  "HT16K33Segment14_set_glyph (blank14 True) 0x0A3C 2 True =
     Inr ((blank14 True)\<lparr>buffer := [0, 0, 0, 0, 0x3C, 0x62, 0, 0, 0, 0, 0, 0, 0, 0, 0, 0]\<rparr>)"
  using ht16k33_digit_writer[where self = "blank14 True" and digit = 2 and glyph = "0x0A3C" and has_dot = True]
    blank_bytes ht16k33_sample
  by (simp add: blank14_def)

section \<open>Colon and decimal point of the 14-segment display\<close>

lemma and_byte: "0 \<le> x \<Longrightarrow> x < 256 \<Longrightarrow> 0 \<le> m \<Longrightarrow> 0 \<le> and x (m::int) \<and> and x m < 256"
  using AND_upper1[of x m] by simp

lemma ior_item_ok:
  assumes "bytearray16 buf" "0 \<le> i" "i < 16" "0 \<le> m" "m < 256"
  shows "ior_item buf i m = Inr (buf[nat i := or (buf ! nat i) m])"
proof -
  have len: "length buf = 16" using assms(1) by (rule bytearray16_length)
  have x: "0 \<le> buf ! nat i \<and> buf ! nat i < 256" using assms(1-3) by (intro bytearray16_nth) auto
  have "0 \<le> or (buf ! nat i) m \<and> or (buf ! nat i) m < 256" using x assms(4,5) by (intro or_byte) auto
  then show ?thesis using assms(2,3) len by (simp add: ior_item_def getitem_ok setitem_ok)
qed

lemma iand_item_ok:
  assumes "bytearray16 buf" "0 \<le> i" "i < 16" "0 \<le> m"
  shows "iand_item buf i m = Inr (buf[nat i := and (buf ! nat i) m])"
proof -
  have len: "length buf = 16" using assms(1) by (rule bytearray16_length)
  have x: "0 \<le> buf ! nat i \<and> buf ! nat i < 256" using assms(1-3) by (intro bytearray16_nth) auto
  have "0 \<le> and (buf ! nat i) m \<and> and (buf ! nat i) m < 256" using x assms(4) by (intro and_byte) auto
  then show ?thesis using assms(2,3) len by (simp add: iand_item_def getitem_ok setitem_ok)
qed

lemma or_1_set_bit: "or x 1 = set_bit 0 (x::int)"
  by (simp add: set_bit_eq_or)

lemma bit_254: "bit (254::int) n \<longleftrightarrow> 0 < n \<and> n < 8"
proof -
  have "(254::int) = and 255 (not 1)" by simp
  then have "bit (254::int) n \<longleftrightarrow> bit (and 255 (not (1::int))) n" by simp
  also have "\<dots> \<longleftrightarrow> 0 < n \<and> n < 8"
    unfolding bit_and_iff bit_not_iff bit_255 bit_1_iff by auto
  finally show ?thesis .
qed

lemma and_FE_unset_bit:
  assumes "0 \<le> x" "x < 256"
  shows "and x 0xFE = unset_bit 0 (x::int)"
proof (rule bit_eqI)
  fix n
  have "take_bit 8 x = x" using assms by (simp add: take_bit_eq_mod)
  then have "bit x n \<Longrightarrow> n < 8" by (metis bit_take_bit_iff)
  then show "bit (and x 0xFE) n \<longleftrightarrow> bit (unset_bit 0 x) n"
    by (auto simp add: bit_and_iff bit_254 bit_unset_bit_iff)
qed


text \<open>
  C8. On an object built with \<open>is_ht16k33 = True\<close>, \<open>set_colon\<close> and \<open>set_decimal\<close> return
  the object untouched. Otherwise \<open>set_colon\<close> sets, or clears, bit 0 of buffer byte 1 and
  nothing else, and \<open>set_decimal\<close> replaces buffer byte 3 by \<open>byte | 0x01\<close> to set and by
  \<open>byte & 0x7F\<close> to clear.
\<close>

theorem seg14_colon_decimal:
  assumes "bytearray16 (buffer self)"
  shows "(is_ht16k33 self \<longrightarrow>
            HT16K33Segment14_set_colon self is_on = Inr self \<and> set_decimal self is_on = Inr self)
       \<and> (\<not> is_ht16k33 self \<longrightarrow>
            HT16K33Segment14_set_colon self True =
              Inr (self\<lparr>buffer := (buffer self)[1 := set_bit 0 (buffer self ! 1)]\<rparr>)
          \<and> HT16K33Segment14_set_colon self False =
              Inr (self\<lparr>buffer := (buffer self)[1 := unset_bit 0 (buffer self ! 1)]\<rparr>)
          \<and> set_decimal self True =
              Inr (self\<lparr>buffer := (buffer self)[3 := or (buffer self ! 3) 0x01]\<rparr>)
          \<and> set_decimal self False =
              Inr (self\<lparr>buffer := (buffer self)[3 := and (buffer self ! 3) 0x7F]\<rparr>))"
proof -
  have b1: "0 \<le> buffer self ! 1 \<and> buffer self ! 1 < 256"
    using assms by (intro bytearray16_nth) auto
  show ?thesis
    using b1
    by (simp add: HT16K33Segment14_set_colon_def set_decimal_def on_buffer_def
        ior_item_ok[OF assms] iand_item_ok[OF assms] VK16K33_SEG14_COLON_BYTE_def
        VK16K33_SEG14_DECIMAL_BYTE_def or_1_set_bit and_FE_unset_bit)
qed

lemma full_bytes: "bytearray16 (replicate 16 0xFF)"
  by (simp add: bytearray16_def list_all_length)


lemma colon_decimal_samples:
  "(replicate 16 (0xFF::int))[1 := unset_bit 0 (replicate 16 0xFF ! 1)] =
     [0xFF, 0xFE, 0xFF, 0xFF, 0xFF, 0xFF, 0xFF, 0xFF, 0xFF, 0xFF, 0xFF, 0xFF, 0xFF, 0xFF, 0xFF, 0xFF]"
  "(replicate 16 (0xFF::int))[3 := and (replicate 16 0xFF ! 3) 0x7F] =
     [0xFF, 0xFF, 0xFF, 0x7F, 0xFF, 0xFF, 0xFF, 0xFF, 0xFF, 0xFF, 0xFF, 0xFF, 0xFF, 0xFF, 0xFF, 0xFF]"
  "(replicate 16 (0::int))[1 := set_bit 0 (replicate 16 0 ! 1)] =
     [0, 1, 0, 0, 0, 0, 0, 0, 0, 0, 0, 0, 0, 0, 0, 0]"
  "(replicate 16 (0::int))[3 := or (replicate 16 0 ! 3) 0x01] =
     [0, 0, 0, 1, 0, 0, 0, 0, 0, 0, 0, 0, 0, 0, 0, 0]"
  by code_simp+

theorem seg14_colon_decimal_witness:
  "HT16K33Segment14_set_colon (full14 True) False = Inr (full14 True)
   \<and> set_decimal (full14 True) False = Inr (full14 True)
   \<and> HT16K33Segment14_set_colon (full14 False) False =
       Inr ((full14 False)\<lparr>buffer :=
         [0xFF, 0xFE, 0xFF, 0xFF, 0xFF, 0xFF, 0xFF, 0xFF, 0xFF, 0xFF, 0xFF, 0xFF, 0xFF, 0xFF, 0xFF, 0xFF]\<rparr>)
   \<and> set_decimal (full14 False) False =
       Inr ((full14 False)\<lparr>buffer :=
         [0xFF, 0xFF, 0xFF, 0x7F, 0xFF, 0xFF, 0xFF, 0xFF, 0xFF, 0xFF, 0xFF, 0xFF, 0xFF, 0xFF, 0xFF, 0xFF]\<rparr>)
   \<and> HT16K33Segment14_set_colon (blank14 False) True =
       Inr ((blank14 False)\<lparr>buffer := [0, 1, 0, 0, 0, 0, 0, 0, 0, 0, 0, 0, 0, 0, 0, 0]\<rparr>)
   \<and> set_decimal (blank14 False) True =
       Inr ((blank14 False)\<lparr>buffer := [0, 0, 0, 1, 0, 0, 0, 0, 0, 0, 0, 0, 0, 0, 0, 0]\<rparr>)"
  using seg14_colon_decimal[where self = "full14 True" and is_on = False]
        seg14_colon_decimal[where self = "full14 False" and is_on = False]
        seg14_colon_decimal[where self = "blank14 False" and is_on = True]
        full_bytes blank_bytes colon_decimal_samples
  by (simp add: full14_def blank14_def)

section \<open>Rotation of the 7-segment display\<close>

lemma bit_turn_byte:
  "bit (turn_byte x) n \<longleftrightarrow>
     (if n < 3 then bit x (n + 3) else if n < 6 then bit x (n - 3) else bit x n)"
  by (auto simp add: turn_byte_def bit_or_iff bit_push_bit_iff bit_drop_bit_eq bit_take_bit_iff add.commute)

lemma bit_7: "bit (7::int) n \<longleftrightarrow> n < 3"
  using bit_mask_iff[where ?'a = int, of 3 n] by (simp add: mask_eq_exp_minus_1)

lemma bit_3: "bit (3::int) n \<longleftrightarrow> n < 2"
  using bit_mask_iff[where ?'a = int, of 2 n] by (simp add: mask_eq_exp_minus_1)

lemma bit_56: "bit (0x38::int) n \<longleftrightarrow> 3 \<le> n \<and> n < 6"
  using bit_push_bit_iff[where ?'a = int, of 3 7 n] by (auto simp add: bit_7)

lemma bit_192: "bit (0xC0::int) n \<longleftrightarrow> 6 \<le> n \<and> n < 8"
  using bit_push_bit_iff[where ?'a = int, of 6 3 n] by (auto simp add: bit_3)

lemma byte_bits: "0 \<le> x \<Longrightarrow> x < 256 \<Longrightarrow> bit (x::int) n \<Longrightarrow> n < 8"
proof -
  assume "0 \<le> x" "x < 256"
  then have "take_bit 8 x = x" by (simp add: take_bit_eq_mod)
  then show "bit x n \<Longrightarrow> n < 8" by (metis bit_take_bit_iff)
qed

lemma bits_byte:
  assumes "\<And>n. bit (y::int) n \<Longrightarrow> n < 8"
  shows "0 \<le> y \<and> y < 256"
proof -
  have "take_bit 8 y = y"
    by (rule bit_eqI) (use assms in \<open>auto simp add: bit_take_bit_iff\<close>)
  moreover have "0 \<le> take_bit 8 y" by simp
  moreover have "take_bit 8 y < 2 ^ 8" by (rule take_bit_int_less_exp)
  ultimately show ?thesis by simp
qed

lemma turn_expr:
  assumes "0 \<le> a" "a < 256"
  shows "or (or (and a 0xC0) (push_bit 3 (and a 0x07))) (drop_bit 3 (and a 0x38)) = turn_byte a"
proof (rule bit_eqI)
  fix n
  have h: "bit (and a 0xC0) n \<longleftrightarrow> 6 \<le> n \<and> bit a n"
    using byte_bits[OF assms, of n] by (auto simp add: bit_and_iff bit_192)
  have l: "bit (push_bit 3 (and a 0x07)) n \<longleftrightarrow> 3 \<le> n \<and> n < 6 \<and> bit a (n - 3)"
    by (auto simp add: bit_push_bit_iff bit_and_iff bit_7 bit_56)
  have m: "bit (drop_bit 3 (and a 0x38)) n \<longleftrightarrow> n < 3 \<and> bit a (n + 3)"
    by (auto simp add: bit_drop_bit_eq bit_and_iff bit_7 bit_56 add.commute)
  show "bit (or (or (and a 0xC0) (push_bit 3 (and a 0x07))) (drop_bit 3 (and a 0x38))) n
        \<longleftrightarrow> bit (turn_byte a) n"
    unfolding bit_or_iff h l m bit_turn_byte by auto
qed

lemma turn_byte_byte:
  assumes "0 \<le> a" "a < 256"
  shows "0 \<le> turn_byte a \<and> turn_byte a < 256"
proof (rule bits_byte)
  fix n
  assume "bit (turn_byte a) n"
  then show "n < 8"
    using byte_bits[OF assms, of n] byte_bits[OF assms, of "n + 3"]
    by (auto simp add: bit_turn_byte split: if_splits)
qed

lemma swap_digits_ok:
  assumes "bytearray16 buf" "0 \<le> p" "p < 16" "0 \<le> q" "q < 16"
  shows "swap_digits buf p q = Inr (buf[nat p := buf ! nat q, nat q := buf ! nat p])"
    and "bytearray16 (buf[nat p := buf ! nat q, nat q := buf ! nat p])"
proof -
  have len: "length buf = 16" using assms(1) by (rule bytearray16_length)
  have bp: "0 \<le> buf ! nat p \<and> buf ! nat p < 256" using assms(1-3) by (intro bytearray16_nth) auto
  have bq: "0 \<le> buf ! nat q \<and> buf ! nat q < 256" using assms(1,4,5) by (intro bytearray16_nth) auto
  show "swap_digits buf p q = Inr (buf[nat p := buf ! nat q, nat q := buf ! nat p])"
    using assms(2-5) len bp bq
    by (simp add: swap_digits_def getitem_ok setitem_ok bind_def)
  show "bytearray16 (buf[nat p := buf ! nat q, nat q := buf ! nat p])"
    using assms(1) bp bq by (simp add: bytearray16_update)
qed

lemma rotate_digit_ok:
  assumes "bytearray16 buf" "i < 4"
  shows "rotate_digit buf i = Inr (buf[nat (POS ! i) := turn_byte (buf ! nat (POS ! i))])"
    and "bytearray16 (buf[nat (POS ! i) := turn_byte (buf ! nat (POS ! i))])"
proof -
  have len: "length buf = 16" using assms(1) by (rule bytearray16_length)
  have "i = 0 \<or> i = 1 \<or> i = 2 \<or> i = 3" using assms(2) by arith
  then have p: "0 \<le> POS ! i \<and> POS ! i < 16" by (auto simp add: POS_def)
  then have b: "0 \<le> buf ! nat (POS ! i) \<and> buf ! nat (POS ! i) < 256"
    using assms(1) by (intro bytearray16_nth) auto
  have t: "0 \<le> turn_byte (buf ! nat (POS ! i)) \<and> turn_byte (buf ! nat (POS ! i)) < 256"
    using b by (intro turn_byte_byte) auto
  have e: "or (or (and (buf ! nat (POS ! i)) 0xC0) (push_bit 3 (and (buf ! nat (POS ! i)) 0x07)))
              (drop_bit 3 (and (buf ! nat (POS ! i)) 0x38)) = turn_byte (buf ! nat (POS ! i))"
    using b by (intro turn_expr) auto
  show "rotate_digit buf i = Inr (buf[nat (POS ! i) := turn_byte (buf ! nat (POS ! i))])"
    unfolding rotate_digit_def Let_def
    using p len t by (simp only: getitem_ok sum.case e setitem_ok of_nat_numeral)
  show "bytearray16 (buf[nat (POS ! i) := turn_byte (buf ! nat (POS ! i))])"
    using assms(1) t by (simp add: bytearray16_update)
qed

lemma upt4: "[0..<4] = [0, 1, 2, 3]"
  by code_simp

lemma rotation_ok:
  assumes "bytearray16 buf"
  shows "bind (swap_digits buf (POS ! 0) (POS ! 3)) (\<lambda>buf.
         bind (swap_digits buf (POS ! 1) (POS ! 2)) (\<lambda>buf.
         rotate_loop [0..<4] buf)) = Inr (rotated_buffer buf)"
proof -
  have len: "length buf = 16" using assms by (rule bytearray16_length)
  let ?b1 = "buf[0 := buf ! 8, 8 := buf ! 0]"
  let ?b2 = "?b1[2 := ?b1 ! 6, 6 := ?b1 ! 2]"
  let ?b3 = "?b2[0 := turn_byte (?b2 ! 0)]"
  let ?b4 = "?b3[2 := turn_byte (?b3 ! 2)]"
  let ?b5 = "?b4[6 := turn_byte (?b4 ! 6)]"
  let ?b6 = "?b5[8 := turn_byte (?b5 ! 8)]"
  have s1: "swap_digits buf (POS ! 0) (POS ! 3) = Inr ?b1" and w1: "bytearray16 ?b1"
    using swap_digits_ok[OF assms, of 0 8] by (simp_all add: POS_def)
  have s2: "swap_digits ?b1 (POS ! 1) (POS ! 2) = Inr ?b2" and w2: "bytearray16 ?b2"
    using swap_digits_ok[OF w1, of 2 6] by (simp_all add: POS_def)
  have s3: "rotate_digit ?b2 0 = Inr ?b3" and w3: "bytearray16 ?b3"
    using rotate_digit_ok[OF w2, of 0] by (simp_all add: POS_def)
  have s4: "rotate_digit ?b3 1 = Inr ?b4" and w4: "bytearray16 ?b4"
    using rotate_digit_ok[OF w3, of 1] by (simp_all add: POS_def)
  have s5: "rotate_digit ?b4 2 = Inr ?b5" and w5: "bytearray16 ?b5"
    using rotate_digit_ok[OF w4, of 2] by (simp_all add: POS_def)
  have s6: "rotate_digit ?b5 3 = Inr ?b6"
    using rotate_digit_ok[OF w5, of 3] by (simp_all add: POS_def)
  have run: "bind (swap_digits buf (POS ! 0) (POS ! 3)) (\<lambda>buf.
         bind (swap_digits buf (POS ! 1) (POS ! 2)) (\<lambda>buf.
         rotate_loop [0..<4] buf)) = Inr ?b6"
    by (simp only: s1 s2 s3 s4 s5 s6 bind_def sum.case upt4 rotate_loop.simps)
  have "?b6 = rotated_buffer buf"
    using len by (intro nth_equalityI) (auto simp add: rotated_buffer_def nth_list_update)
  with run show ?thesis by simp
qed

lemma rotated_buffer_bytes:
  assumes "bytearray16 buf"
  shows "bytearray16 (rotated_buffer buf)"
proof -
  have t: "0 \<le> turn_byte (buf ! j) \<and> turn_byte (buf ! j) < 256" if "j < 16" for j
    using bytearray16_nth[OF assms that] by (intro turn_byte_byte) auto
  show ?thesis
    unfolding rotated_buffer_def
    using assms t[of 0] t[of 2] t[of 6] t[of 8] by (simp add: bytearray16_update)
qed

lemma draw_rotated:
  assumes "is_rotated self" "bytearray16 (buffer self)"
  shows "HT16K33Segment_draw self =
           Inr (self\<lparr>buffer := rotated_buffer (buffer self),
                     i2c := i2c self @ [(address self, 0 # rotated_buffer (buffer self))]\<rparr>)"
  using assms(1) rotation_ok[OF assms(2)]
  by (simp add: HT16K33Segment_draw_def on_buffer_def render_def bind_def)


text \<open>
  C5. While the rotation flag is set, \<open>draw\<close> replaces the stored buffer by the rotated
  buffer (the bytes at \<open>POS[0]\<close> and \<open>POS[3]\<close> exchanged, those at \<open>POS[1]\<close> and \<open>POS[2]\<close>
  exchanged, each of the four turned) and then transmits the zero byte followed by that
  buffer. The flag stays set, so a second \<open>draw\<close> rotates the buffer the first one stored
  and transmits the result. The turn of a byte is stated bit by bit.
\<close>

theorem seg7_draw_rotated:
  assumes "is_rotated self" "bytearray16 (buffer self)"
  shows "HT16K33Segment_draw self =
           Inr (self\<lparr>buffer := rotated_buffer (buffer self),
                     i2c := i2c self @ [(address self, 0 # rotated_buffer (buffer self))]\<rparr>)
       \<and> bind (HT16K33Segment_draw self) HT16K33Segment_draw =
           Inr (self\<lparr>buffer := rotated_buffer (rotated_buffer (buffer self)),
                     i2c := i2c self @
                       [(address self, 0 # rotated_buffer (buffer self)),
                        (address self, 0 # rotated_buffer (rotated_buffer (buffer self)))]\<rparr>)
       \<and> (\<forall>x n. bit (turn_byte x) n \<longleftrightarrow>
             (if n < 3 then bit x (n + 3) else if n < 6 then bit x (n - 3) else bit x n))"
proof (intro conjI)
  let ?s = "self\<lparr>buffer := rotated_buffer (buffer self),
                     i2c := i2c self @ [(address self, 0 # rotated_buffer (buffer self))]\<rparr>"
  show first: "HT16K33Segment_draw self = Inr ?s"
    using assms by (rule draw_rotated)
  have "is_rotated ?s" "bytearray16 (buffer ?s)"
    using assms rotated_buffer_bytes[OF assms(2)] by simp_all
  then have "HT16K33Segment_draw ?s =
      Inr (?s\<lparr>buffer := rotated_buffer (buffer ?s),
                i2c := i2c ?s @ [(address ?s, 0 # rotated_buffer (buffer ?s))]\<rparr>)"
    by (rule draw_rotated)
  then show "bind (HT16K33Segment_draw self) HT16K33Segment_draw =
           Inr (self\<lparr>buffer := rotated_buffer (rotated_buffer (buffer self)),
                     i2c := i2c self @
                       [(address self, 0 # rotated_buffer (buffer self)),
                        (address self, 0 # rotated_buffer (rotated_buffer (buffer self)))]\<rparr>)"
    by (simp add: first bind_def)
  show "\<forall>x n. bit (turn_byte x) n \<longleftrightarrow>
             (if n < 3 then bit x (n + 3) else if n < 6 then bit x (n - 3) else bit x n)"
    by (simp add: bit_turn_byte)
qed

lemma rotation_samples:
  "bytearray16 [0x3F, 0, 0x86, 0, 0x02, 0, 0x5B, 0, 0x4F, 0, 0, 0, 0, 0, 0, 0]"
  "rotated_buffer [0x3F, 0, 0x86, 0, 0x02, 0, 0x5B, 0, 0x4F, 0, 0, 0, 0, 0, 0, 0] =
     [0x79, 0, 0x5B, 0, 0x02, 0, 0xB0, 0, 0x3F, 0, 0, 0, 0, 0, 0, 0]"
  "rotated_buffer [0x79, 0, 0x5B, 0, 0x02, 0, 0xB0, 0, 0x3F, 0, 0, 0, 0, 0, 0, 0] =
     [0x3F, 0, 0x86, 0, 0x02, 0, 0x5B, 0, 0x4F, 0, 0, 0, 0, 0, 0, 0]"
  by code_simp+

theorem seg7_draw_rotated_witness:
  "HT16K33Segment_draw rotated7 =
     Inr (rotated7\<lparr>buffer := [0x79, 0, 0x5B, 0, 0x02, 0, 0xB0, 0, 0x3F, 0, 0, 0, 0, 0, 0, 0],
            i2c := i2c rotated7 @
              [(0x70, [0, 0x79, 0, 0x5B, 0, 0x02, 0, 0xB0, 0, 0x3F, 0, 0, 0, 0, 0, 0, 0])]\<rparr>)
   \<and> bind (HT16K33Segment_draw rotated7) HT16K33Segment_draw =
     Inr (rotated7\<lparr>buffer := [0x3F, 0, 0x86, 0, 0x02, 0, 0x5B, 0, 0x4F, 0, 0, 0, 0, 0, 0, 0],
            i2c := i2c rotated7 @
              [(0x70, [0, 0x79, 0, 0x5B, 0, 0x02, 0, 0xB0, 0, 0x3F, 0, 0, 0, 0, 0, 0, 0]),
               (0x70, [0, 0x3F, 0, 0x86, 0, 0x02, 0, 0x5B, 0, 0x4F, 0, 0, 0, 0, 0, 0, 0])]\<rparr>)"
proof -
  have b: "is_rotated rotated7" "bytearray16 (buffer rotated7)"
    by (simp_all add: rotated7_def rotation_samples(1))
  have r1: "rotated_buffer (buffer rotated7) =
      [0x79, 0, 0x5B, 0, 0x02, 0, 0xB0, 0, 0x3F, 0, 0, 0, 0, 0, 0, 0]"
    by (simp add: rotated7_def rotation_samples(2))
  have r2: "rotated_buffer [0x79, 0, 0x5B, 0, 0x02, 0, 0xB0, 0, 0x3F, 0, 0, 0, 0, 0, 0, 0] =
      [0x3F, 0, 0x86, 0, 0x02, 0, 0x5B, 0, 0x4F, 0, 0, 0, 0, 0, 0, 0]"
    by (rule rotation_samples(3))
  have a: "address rotated7 = 0x70"
    by (simp add: rotated7_def)
  from seg7_draw_rotated[OF b] show ?thesis
    unfolding r1 r2 a by blast
qed

section \<open>Characters on the 7-segment display\<close>

lemma str_in_single: "str_in [c] t \<longleftrightarrow> c \<in> set t"
  unfolding str_in_def by (induction t) (auto simp add: sublist_Cons_right)

lemma ord_single: "ord [c] = Inr (of_char c)"
  by (simp add: ord_def)

lemma ord_other: "length s \<noteq> 1 \<Longrightarrow> ord s = Inl TypeError"
  by (cases s rule: list.exhaust; simp add: ord_def split: list.split)

lemma char_val_supported:
  "map_of charset_table7 s = Some k \<Longrightarrow> seg7_char_val s = Inr (int k)"
  by (auto simp add: charset_table7_def seg7_char_val_def str_in_single ord_single
      HT16K33_SEGMENT_DEGREE_CHAR_def HT16K33_SEGMENT_MINUS_CHAR_def HT16K33_SEGMENT_SPACE_CHAR_def
      split: if_splits)

lemma char_val_unsupported:
  assumes "map_of charset_table7 s = None"
  shows "seg7_char_val s =
     (if str_in s ''abcdef'' \<or> str_in s ''0123456789'' then Inl TypeError else Inr 0xFF)"
proof (cases "length s = 1")
  case True
  then obtain c where s: "s = [c]" by (cases s) auto
  show ?thesis
    using assms unfolding s
    by (auto simp add: charset_table7_def seg7_char_val_def str_in_single split: if_splits)
next
  case False
  then have o: "ord s = Inl TypeError" by (rule ord_other)
  have "s \<noteq> ''deg''" "s \<noteq> ''-''" "s \<noteq> '' ''"
    using assms False by (auto simp add: charset_table7_def)
  then show ?thesis
    by (simp add: seg7_char_val_def o)
qed

lemma table7_range: "map_of charset_table7 s = Some k \<Longrightarrow> k < 19"
  by (auto simp add: charset_table7_def split: if_splits)

lemma CHARSET_bytes: "k < 19 \<Longrightarrow> 0 \<le> CHARSET ! k \<and> CHARSET ! k < 128"
proof -
  have "list_all (\<lambda>x. 0 \<le> x \<and> x < 128) CHARSET" by (simp add: CHARSET_def)
  moreover have "length CHARSET = 19" by (simp add: CHARSET_def)
  ultimately show "k < 19 \<Longrightarrow> 0 \<le> CHARSET ! k \<and> CHARSET ! k < 128"
    by (simp add: list_all_length)
qed

lemma POS_range: "0 \<le> digit \<Longrightarrow> digit < 4 \<Longrightarrow>
    getitem POS digit = Inr (POS ! nat digit) \<and> 0 \<le> POS ! nat digit \<and> POS ! nat digit < 16"
proof -
  assume d: "0 \<le> digit" "digit < 4"
  then have "nat digit = 0 \<or> nat digit = 1 \<or> nat digit = 2 \<or> nat digit = 3" by arith
  then have "0 \<le> POS ! nat digit \<and> POS ! nat digit < 16" by (auto simp add: POS_def)
  moreover have "getitem POS digit = Inr (POS ! nat digit)"
    using d by (intro getitem_ok) (simp_all add: POS_def)
  ultimately show ?thesis by simp
qed

lemma put_digit_ok:
  assumes "bytearray16 buf" "0 \<le> digit" "digit < 4" "0 \<le> v" "v < 128"
  shows "put_digit buf digit v has_dot =
           Inr (buf[nat (POS ! nat digit) := or v (if has_dot then 0x80 else 0)])"
proof -
  have len: "length buf = 16" using assms(1) by (rule bytearray16_length)
  from POS_range[OF assms(2,3)]
  have p1: "getitem POS digit = Inr (POS ! nat digit)"
    and p2: "0 \<le> POS ! nat digit" and p3: "POS ! nat digit < 16" by simp_all
  have n: "nat (POS ! nat digit) < length buf" using p2 p3 len by simp
  have "0 \<le> or v 0x80 \<and> or v 0x80 < 256" using assms(4,5) by (intro or_byte) auto
  then show ?thesis
    using p2 p3 n len assms(4,5)
    by (simp add: put_digit_def p1 bind_def setitem_ok ior_item_def getitem_ok)
qed


text \<open>
  The lowercasing of the source agrees with the table on every character.
\<close>

lemma char_eq_code: "(c = d) = ((of_char c :: nat) = of_char d)"
  by simp

lemma upper_iff:
  "c \<in> set ''ABCDEFGHIJKLMNOPQRSTUVWXYZ'' \<longleftrightarrow> 65 \<le> (of_char c :: nat) \<and> (of_char c :: nat) \<le> 90"
  by (simp add: char_eq_code[of c]; arith)

lemma lower_char_table: "lower_char c = ascii_lower c"
proof (cases "c \<in> set ''ABCDEFGHIJKLMNOPQRSTUVWXYZ''")
  case False
  then have "\<not> (65 \<le> (of_char c :: nat) \<and> (of_char c :: nat) \<le> 90)"
    using upper_iff[of c] by blast
  then have l: "lower_char c = c" by (auto simp add: lower_char_def Let_def)
  from False have "ascii_lower c = c" by (simp add: ascii_lower_def)
  with l show ?thesis by simp
next
  case True
  then have "c = CHR ''A'' \<or> c = CHR ''B'' \<or> c = CHR ''C'' \<or> c = CHR ''D'' \<or> c = CHR ''E''
    \<or> c = CHR ''F'' \<or> c = CHR ''G'' \<or> c = CHR ''H'' \<or> c = CHR ''I'' \<or> c = CHR ''J''
    \<or> c = CHR ''K'' \<or> c = CHR ''L'' \<or> c = CHR ''M'' \<or> c = CHR ''N'' \<or> c = CHR ''O''
    \<or> c = CHR ''P'' \<or> c = CHR ''Q'' \<or> c = CHR ''R'' \<or> c = CHR ''S'' \<or> c = CHR ''T''
    \<or> c = CHR ''U'' \<or> c = CHR ''V'' \<or> c = CHR ''W'' \<or> c = CHR ''X'' \<or> c = CHR ''Y''
    \<or> c = CHR ''Z''"
    by simp
  then show ?thesis
    by (elim disjE) (simp_all add: lower_char_def ascii_lower_def Let_def char_eq_code)
qed

lemma lower_table: "lower s = map ascii_lower s"
  by (simp add: lower_def lower_char_table)

text \<open>
  What \<open>set_character\<close> does for a digit in \<open>[0, 4)\<close>: the input is lowercased and looked
  up; \<open>deg\<close> gives index \<open>0x11\<close>, \<open>-\<close> gives \<open>0x10\<close>, the space gives \<open>0x12\<close>, \<open>a\<close> to \<open>f\<close>
  give 10 to 15 and \<open>0\<close> to \<open>9\<close> give 0 to 9. On a hit, \<open>buffer[POS[digit]]\<close> becomes
  \<open>CHARSET[index]\<close>, with \<open>0x80\<close> ORed in when the dot flag is set, and nothing else changes.
  Any other input fails and leaves the object as it was, with one of two exceptions.
\<close>

lemma seg7_set_character_lower:
  assumes "bytearray16 (buffer self)" "0 \<le> digit" "digit < 4"
  shows "HT16K33Segment_set_character self char digit has_dot =
     (case map_of charset_table7 (lower char) of
        Some k \<Rightarrow>
          Inr (self\<lparr>buffer := (buffer self)
                 [nat (POS ! nat digit) := or (CHARSET ! k) (if has_dot then 0x80 else 0)]\<rparr>)
      | None \<Rightarrow>
          Inl (if str_in (lower char) ''abcdef'' \<or> str_in (lower char) ''0123456789''
               then TypeError else AssertionError, self))"
proof (cases "map_of charset_table7 (lower char)")
  case None
  show ?thesis
    using assms(2,3)
    by (simp add: None HT16K33Segment_set_character_def char_val_unsupported[OF None])
next
  case (Some k)
  have k: "k < 19" using Some by (rule table7_range)
  have g: "getitem CHARSET (int k) = Inr (CHARSET ! k)"
    using k by (simp add: getitem_ok CHARSET_def)
  have ne: "int k \<noteq> 0xFF" using k by simp
  note c = CHARSET_bytes[OF k]
  show ?thesis
    using assms(2,3) ne
    by (simp add: Some HT16K33Segment_set_character_def char_val_supported[OF Some] g
        on_buffer_def put_digit_ok[OF assms] c)
qed

lemma seg7_set_character_result:
  assumes "bytearray16 (buffer self)" "0 \<le> digit" "digit < 4"
  shows "HT16K33Segment_set_character self char digit has_dot =
     (case map_of charset_table7 (map ascii_lower char) of
        Some k \<Rightarrow>
          Inr (self\<lparr>buffer := (buffer self)
                 [nat (POS ! nat digit) := or (CHARSET ! k) (if has_dot then 0x80 else 0)]\<rparr>)
      | None \<Rightarrow>
          Inl (if str_in (map ascii_lower char) ''abcdef'' \<or> str_in (map ascii_lower char) ''0123456789''
               then TypeError else AssertionError, self))"
  using seg7_set_character_lower[OF assms] by (simp add: lower_table)

lemma seg7_samples:
  "bytearray16 (buffer blank7)"
  "ascii_lower CHR ''5'' = CHR ''5''" "ascii_lower CHR ''D'' = CHR ''d''"
  "ascii_lower CHR ''E'' = CHR ''e''" "ascii_lower CHR ''G'' = CHR ''g''"
  "ascii_lower CHR ''A'' = CHR ''a''" "ascii_lower CHR ''g'' = CHR ''g''"
  "map_of charset_table7 ''5'' = Some 5"
  "map_of charset_table7 ''deg'' = Some 0x11"
  "map_of charset_table7 ''a'' = Some 10"
  "map_of charset_table7 ''g'' = None"
  "\<not> str_in ''g'' ''abcdef''" "\<not> str_in ''g'' ''0123456789''"
  "CHARSET ! 5 = 0x6D" "CHARSET ! 0x11 = 0x63" "CHARSET ! 10 = 0x5F"
  "nat (POS ! 0) = 0" "nat (POS ! 3) = 8"
  "(replicate 16 (0::int))[0 := 0x6D] = [0x6D, 0, 0, 0, 0, 0, 0, 0, 0, 0, 0, 0, 0, 0, 0, 0]"
  "(replicate 16 (0::int))[0 := 0xED] = [0xED, 0, 0, 0, 0, 0, 0, 0, 0, 0, 0, 0, 0, 0, 0, 0]"
  "(replicate 16 (0::int))[0 := 0x5F] = [0x5F, 0, 0, 0, 0, 0, 0, 0, 0, 0, 0, 0, 0, 0, 0, 0]"
  "(replicate 16 (0::int))[8 := 0x63] = [0, 0, 0, 0, 0, 0, 0, 0, 0x63, 0, 0, 0, 0, 0, 0, 0]"
  by code_simp+

text \<open>
  The scenario of the specification: \<open>5\<close> at digit 0 shows \<open>CHARSET[5] = 0x6D\<close>, and \<open>0xED\<close>
  with the dot; capitals are lowercased first.
\<close>

lemma seg7_set_character_samples:
  "HT16K33Segment_set_character blank7 ''5'' 0 False =
     Inr (blank7\<lparr>buffer := [0x6D, 0, 0, 0, 0, 0, 0, 0, 0, 0, 0, 0, 0, 0, 0, 0]\<rparr>)
   \<and> HT16K33Segment_set_character blank7 ''5'' 0 True =
     Inr (blank7\<lparr>buffer := [0xED, 0, 0, 0, 0, 0, 0, 0, 0, 0, 0, 0, 0, 0, 0, 0]\<rparr>)
   \<and> HT16K33Segment_set_character blank7 ''DEG'' 3 False =
     Inr (blank7\<lparr>buffer := [0, 0, 0, 0, 0, 0, 0, 0, 0x63, 0, 0, 0, 0, 0, 0, 0]\<rparr>)
   \<and> HT16K33Segment_set_character blank7 ''A'' 0 False =
     Inr (blank7\<lparr>buffer := [0x5F, 0, 0, 0, 0, 0, 0, 0, 0, 0, 0, 0, 0, 0, 0, 0]\<rparr>)
   \<and> HT16K33Segment_set_character blank7 ''g'' 0 False = Inl (AssertionError, blank7)"
proof -
  have b: "buffer blank7 = replicate 16 0" by (simp add: blank7_def)
  have "HT16K33Segment_set_character blank7 ''5'' 0 False =
     Inr (blank7\<lparr>buffer := [0x6D, 0, 0, 0, 0, 0, 0, 0, 0, 0, 0, 0, 0, 0, 0, 0]\<rparr>)"
    using seg7_set_character_result[OF seg7_samples(1), of 0 "''5''" False]
    by (simp add: seg7_samples b)
  moreover have "HT16K33Segment_set_character blank7 ''5'' 0 True =
     Inr (blank7\<lparr>buffer := [0xED, 0, 0, 0, 0, 0, 0, 0, 0, 0, 0, 0, 0, 0, 0, 0]\<rparr>)"
    using seg7_set_character_result[OF seg7_samples(1), of 0 "''5''" True]
    by (simp add: seg7_samples b)
  moreover have "HT16K33Segment_set_character blank7 ''DEG'' 3 False =
     Inr (blank7\<lparr>buffer := [0, 0, 0, 0, 0, 0, 0, 0, 0x63, 0, 0, 0, 0, 0, 0, 0]\<rparr>)"
    using seg7_set_character_result[OF seg7_samples(1), of 3 "''DEG''" False]
    by (simp add: seg7_samples b)
  moreover have "HT16K33Segment_set_character blank7 ''A'' 0 False =
     Inr (blank7\<lparr>buffer := [0x5F, 0, 0, 0, 0, 0, 0, 0, 0, 0, 0, 0, 0, 0, 0, 0]\<rparr>)"
    using seg7_set_character_result[OF seg7_samples(1), of 0 "''A''" False]
    by (simp add: seg7_samples b)
  moreover have "HT16K33Segment_set_character blank7 ''g'' 0 False = Inl (AssertionError, blank7)"
    using seg7_set_character_result[OF seg7_samples(1), of 0 "''g''" False]
    by (simp add: seg7_samples)
  ultimately show ?thesis by blast
qed

lemma seg7_unsupported:
  assumes "0 \<le> digit" "digit < 4" "map_of charset_table7 (lower char) = None"
  shows "HT16K33Segment_set_character self char digit has_dot =
     Inl (if str_in (lower char) ''abcdef'' \<or> str_in (lower char) ''0123456789''
          then TypeError else AssertionError, self)"
  using assms(1,2)
  by (simp add: HT16K33Segment_set_character_def char_val_unsupported[OF assms(3)])

lemma substring_samples:
  "map_of charset_table7 (lower ''ab'') = None" "str_in (lower ''ab'') ''abcdef''"
  "map_of charset_table7 (lower ''AB'') = None" "str_in (lower ''AB'') ''abcdef''"
  "map_of charset_table7 (lower []) = None" "str_in (lower []) ''abcdef''"
  "map_of charset_table7 (lower ''12'') = None" "str_in (lower ''12'') ''0123456789''"
  "map_of charset_table7 (lower ''!'') = None"
  "\<not> str_in (lower ''!'') ''abcdef''" "\<not> str_in (lower ''!'') ''0123456789''"
  by code_simp+

text \<open>
  C4. The claim says that every input outside the character set fails as an invalid
  character, that is, on the assertion \<open>char_val != 0xFF\<close>. The code tests membership with
  \<open>char in 'abcdef'\<close> and \<open>char in '0123456789'\<close>, which on strings is the substring test: the
  empty string and a longer piece of either string, \<open>ab\<close> or \<open>12\<close>, pass it, and \<open>ord\<close> then
  raises TypeError before the assertion is reached. The input is lowercased first, so \<open>AB\<close>
  goes the same way. A single character outside the set, \<open>!\<close>, fails on the assertion as the
  claim says. In every case the object is left as it was.
\<close>

theorem seg7_set_character_substring:
  "HT16K33Segment_set_character blank7 ''ab'' 0 False = Inl (TypeError, blank7)
   \<and> HT16K33Segment_set_character blank7 ''AB'' 0 False = Inl (TypeError, blank7)
   \<and> HT16K33Segment_set_character blank7 [] 0 False = Inl (TypeError, blank7)
   \<and> HT16K33Segment_set_character blank7 ''12'' 0 True = Inl (TypeError, blank7)
   \<and> HT16K33Segment_set_character blank7 ''!'' 0 False = Inl (AssertionError, blank7)"
  using seg7_unsupported[of 0 "''ab''" blank7 False] seg7_unsupported[of 0 "''AB''" blank7 False]
    seg7_unsupported[of 0 "[]" blank7 False] seg7_unsupported[of 0 "''12''" blank7 True]
    seg7_unsupported[of 0 "''!''" blank7 False]
  by (simp add: substring_samples)

section \<open>Invalid input\<close>

lemma seg14_unsupported:
  assumes "0 \<le> digit" "digit < 4" "\<not> supported14 char"
  shows "HT16K33Segment14_set_character self char digit has_dot =
           Inl (if length char = 1 then AssertionError else TypeError, self)"
proof (cases "length char = 1")
  case True
  then obtain c where s: "char = [c]" by (cases char) auto
  have "c \<notin> set charset14_chars" using assms(3) by (simp add: s supported14_def)
  then have "seg14_char_val char = Inr 0xFFFF"
    unfolding s by (simp add: charset14_chars_def seg14_char_val_def str_in_single)
  then show ?thesis
    using assms(1,2) by (simp add: HT16K33Segment14_set_character_def s ord_single)
next
  case False
  then have o: "ord char = Inl TypeError" by (rule ord_other)
  have "char \<noteq> ''-''" "char \<noteq> ''*''" "char \<noteq> ''+''" "char \<noteq> '' ''" "char \<noteq> ''/''"
    "char \<noteq> ''$''" "char \<noteq> '':''"
    using False by auto
  then show ?thesis
    using False assms(1,2) by (simp add: HT16K33Segment14_set_character_def seg14_char_val_def o)
qed


text \<open>
  C3. Every buffer-writing operation of both classes fails on invalid input and leaves the
  object, its buffer included, exactly as it was: a digit outside \<open>[0, 4)\<close>, a glyph outside
  \<open>[0, 0x80)\<close> on the 7-segment display or outside \<open>[0, 0xFFFF)\<close> on the 14-segment one, a
  number outside \<open>[0, 10)\<close> and a code outside \<open>[0, 76)\<close> fail an assertion; a character
  outside the character set fails the assertion on the character value or, when it is not
  one character long, the TypeError of \<open>ord\<close>.
\<close>

theorem invalid_input_atomic:
  "(\<not> (0 \<le> digit \<and> digit < 4) \<or> \<not> (0 \<le> glyph \<and> glyph < 0x80) \<longrightarrow>
      HT16K33Segment_set_glyph seven glyph digit has_dot = Inl (AssertionError, seven))
 \<and> (\<not> (0 \<le> digit \<and> digit < 4) \<or> \<not> (0 \<le> number \<and> number < 10) \<longrightarrow>
      HT16K33Segment_set_number seven number digit has_dot = Inl (AssertionError, seven))
 \<and> (\<not> (0 \<le> digit \<and> digit < 4) \<longrightarrow>
      HT16K33Segment_set_character seven char digit has_dot = Inl (AssertionError, seven))
 \<and> (0 \<le> digit \<and> digit < 4 \<and> map_of charset_table7 (lower char) = None \<longrightarrow>
      HT16K33Segment_set_character seven char digit has_dot =
        Inl (if str_in (lower char) ''abcdef'' \<or> str_in (lower char) ''0123456789''
             then TypeError else AssertionError, seven))
 \<and> (\<not> (0 \<le> digit \<and> digit < 4) \<or> \<not> (0 \<le> glyph \<and> glyph < 0xFFFF) \<longrightarrow>
      HT16K33Segment14_set_glyph fourteen glyph digit has_dot = Inl (AssertionError, fourteen))
 \<and> (\<not> (0 \<le> digit \<and> digit < 4) \<or> \<not> (0 \<le> number \<and> number < 10) \<longrightarrow>
      HT16K33Segment14_set_number fourteen number digit has_dot = Inl (AssertionError, fourteen))
 \<and> (\<not> (0 \<le> digit \<and> digit < 4) \<longrightarrow>
      HT16K33Segment14_set_character fourteen char digit has_dot = Inl (AssertionError, fourteen))
 \<and> (0 \<le> digit \<and> digit < 4 \<and> \<not> supported14 char \<longrightarrow>
      HT16K33Segment14_set_character fourteen char digit has_dot =
        Inl (if length char = 1 then AssertionError else TypeError, fourteen))
 \<and> (\<not> (0 \<le> digit \<and> digit < 4) \<or> \<not> (0 \<le> code \<and> code < 76) \<longrightarrow>
      set_code fourteen code digit has_dot = Inl (AssertionError, fourteen))"
proof (intro conjI impI)
  assume "\<not> (0 \<le> digit \<and> digit < 4) \<or> \<not> (0 \<le> glyph \<and> glyph < 0x80)"
  then show "HT16K33Segment_set_glyph seven glyph digit has_dot = Inl (AssertionError, seven)"
    by (auto simp add: HT16K33Segment_set_glyph_def)
next
  assume "\<not> (0 \<le> digit \<and> digit < 4) \<or> \<not> (0 \<le> number \<and> number < 10)"
  then show "HT16K33Segment_set_number seven number digit has_dot = Inl (AssertionError, seven)"
    by (auto simp add: HT16K33Segment_set_number_def)
next
  assume "\<not> (0 \<le> digit \<and> digit < 4)"
  then show "HT16K33Segment_set_character seven char digit has_dot = Inl (AssertionError, seven)"
    by (auto simp add: HT16K33Segment_set_character_def)
next
  assume "0 \<le> digit \<and> digit < 4 \<and> map_of charset_table7 (lower char) = None"
  then show "HT16K33Segment_set_character seven char digit has_dot =
        Inl (if str_in (lower char) ''abcdef'' \<or> str_in (lower char) ''0123456789''
             then TypeError else AssertionError, seven)"
    using seg7_unsupported[of digit char seven has_dot] by blast
next
  assume "\<not> (0 \<le> digit \<and> digit < 4) \<or> \<not> (0 \<le> glyph \<and> glyph < 0xFFFF)"
  then show "HT16K33Segment14_set_glyph fourteen glyph digit has_dot = Inl (AssertionError, fourteen)"
    by (auto simp add: HT16K33Segment14_set_glyph_def)
next
  assume "\<not> (0 \<le> digit \<and> digit < 4) \<or> \<not> (0 \<le> number \<and> number < 10)"
  then show "HT16K33Segment14_set_number fourteen number digit has_dot = Inl (AssertionError, fourteen)"
    by (auto simp add: HT16K33Segment14_set_number_def)
next
  assume "\<not> (0 \<le> digit \<and> digit < 4)"
  then show "HT16K33Segment14_set_character fourteen char digit has_dot = Inl (AssertionError, fourteen)"
    by (auto simp add: HT16K33Segment14_set_character_def)
next
  assume "0 \<le> digit \<and> digit < 4 \<and> \<not> supported14 char"
  then show "HT16K33Segment14_set_character fourteen char digit has_dot =
        Inl (if length char = 1 then AssertionError else TypeError, fourteen)"
    using seg14_unsupported[of digit char fourteen has_dot] by blast
next
  assume "\<not> (0 \<le> digit \<and> digit < 4) \<or> \<not> (0 \<le> code \<and> code < 76)"
  then show "set_code fourteen code digit has_dot = Inl (AssertionError, fourteen)"
    by (auto simp add: set_code_def HT16K33_SEG14_CHAR_COUNT_def)
qed

lemma invalid_samples:
  "map_of charset_table7 (lower ''!'') = None"
  "\<not> str_in (lower ''!'') ''abcdef''" "\<not> str_in (lower ''!'') ''0123456789''"
  "\<not> supported14 ''!''"
  "map_of charset_table7 (lower ''ab'') = None"
  "str_in (lower ''ab'') ''abcdef''"
  "\<not> supported14 ''ab''"
  by code_simp+

theorem invalid_input_atomic_witness:
  "HT16K33Segment_set_glyph blank7 0xFFFF 0 False = Inl (AssertionError, blank7)
 \<and> HT16K33Segment_set_number blank7 10 0 False = Inl (AssertionError, blank7)
 \<and> HT16K33Segment_set_character blank7 ''!'' 0 False = Inl (AssertionError, blank7)
 \<and> HT16K33Segment_set_character blank7 ''ab'' 0 False = Inl (TypeError, blank7)
 \<and> HT16K33Segment_set_character blank7 ''a'' 4 False = Inl (AssertionError, blank7)
 \<and> HT16K33Segment14_set_glyph (blank14 False) 0xFFFF 0 False = Inl (AssertionError, blank14 False)
 \<and> HT16K33Segment14_set_number (blank14 False) 10 0 False = Inl (AssertionError, blank14 False)
 \<and> HT16K33Segment14_set_character (blank14 False) ''!'' 0 False = Inl (AssertionError, blank14 False)
 \<and> HT16K33Segment14_set_character (blank14 False) ''ab'' 0 False = Inl (TypeError, blank14 False)
 \<and> HT16K33Segment14_set_character (blank14 False) ''a'' 4 False = Inl (AssertionError, blank14 False)
 \<and> set_code (blank14 False) 76 0 False = Inl (AssertionError, blank14 False)"
proof -
  note a = invalid_input_atomic[where seven = blank7 and fourteen = "blank14 False" and digit = 0 and glyph = "0xFFFF"
      and number = 10 and char = "''!''" and code = 76 and has_dot = False]
  note b = invalid_input_atomic[where seven = blank7 and fourteen = "blank14 False" and digit = 0 and glyph = "0xFFFF"
      and number = 10 and char = "''ab''" and code = 76 and has_dot = False]
  note c = invalid_input_atomic[where seven = blank7 and fourteen = "blank14 False" and digit = 4 and glyph = 1
      and number = 1 and char = "''a''" and code = 1 and has_dot = False]
  show ?thesis
    using a b c by (simp add: invalid_samples)
qed

end
